theory Spec2Isabelle
  imports Complex_Main
begin

text \<open>
  A model of the camera and observatory code of POCS: the shutter-speed lookup of the
  Canon camera (\<^verbatim>\<open>camera/gphoto/canon.py\<close>), the gphoto2 command channel
  (\<^verbatim>\<open>camera/gphoto/base.py\<close>), and the camera registry and the processing of an
  observation (\<^verbatim>\<open>observatory.py\<close>). The definitions come first, each one following the
  source function whose name it bears; the proofs follow.
\<close>

section \<open>Python values and exceptions\<close>

text \<open>
  The values that reach the functions modelled here are Python strings and Python numbers.
  A number is modelled as the rational it denotes: every literal of the source
  (\<^verbatim>\<open>10.3\<close>, \<^verbatim>\<open>1 / 4000\<close>) is read exactly, and \<^verbatim>\<open>==\<close> and \<^verbatim>\<open><\<close> between numbers are
  equality and order of rationals. Floating-point rounding, infinities and NaN are outside
  the model. Python's \<^verbatim>\<open>==\<close> between a string and a number is \<^verbatim>\<open>False\<close>, which is
  inequality of the two constructors.
\<close>

datatype pyval = Str string | Num rat

datatype error =
    ValueError
  | TypeError
  | KeyError
  | IndexError
  | AttributeError
  | AssertionError
  | TimeoutError
  | InvalidCommand string
  | PanError string
  | OtherException string

text \<open>Python orders strings lexicographically by code point.\<close>

fun str_lt :: "string \<Rightarrow> string \<Rightarrow> bool" where
  "str_lt [] [] = False"
| "str_lt [] (b # bs) = True"
| "str_lt (a # as) [] = False"
| "str_lt (a # as) (b # bs) =
     (if a = b then str_lt as bs else (of_char a :: nat) < of_char b)"

text \<open>\<^verbatim>\<open>x < y\<close>: defined between two numbers and between two strings; a string against a
  number raises \<^verbatim>\<open>TypeError\<close>.\<close>

fun py_lt :: "pyval \<Rightarrow> pyval \<Rightarrow> error + bool" where
  "py_lt (Num a) (Num b) = Inr (a < b)"
| "py_lt (Str a) (Str b) = Inr (str_lt a b)"
| "py_lt (Num a) (Str b) = Inl TypeError"
| "py_lt (Str a) (Num b) = Inl TypeError"

text \<open>\<^verbatim>\<open>xs.index(x)\<close>: the position of the first element equal to \<^verbatim>\<open>x\<close>, or
  \<^verbatim>\<open>ValueError\<close> when there is none.\<close>

fun py_index :: "pyval list \<Rightarrow> pyval \<Rightarrow> error + int" where
  "py_index [] x = Inl ValueError"
| "py_index (y # ys) x =
     (if y = x then Inr 0
      else (case py_index ys x of Inl e \<Rightarrow> Inl e | Inr i \<Rightarrow> Inr (i + 1)))"

text \<open>\<^verbatim>\<open>min(xs)\<close>: \<^verbatim>\<open>ValueError\<close> on an empty list; otherwise the running minimum, replaced
  when a later element is \<^verbatim>\<open><\<close> it, any \<^verbatim>\<open>TypeError\<close> of a comparison passed on.\<close>

fun min_from :: "pyval \<Rightarrow> pyval list \<Rightarrow> error + pyval" where
  "min_from m [] = Inr m"
| "min_from m (x # xs) =
     (case py_lt x m of
        Inl e \<Rightarrow> Inl e
      | Inr b \<Rightarrow> min_from (if b then x else m) xs)"

fun py_min :: "pyval list \<Rightarrow> error + pyval" where
  "py_min [] = Inl ValueError"
| "py_min (x # xs) = min_from x xs"

section \<open>Shutter-speed lookup (camera/gphoto/canon.py)\<close>

text \<open>A dict literal keeps its insertion order: an association list in source order.\<close>

type_synonym speed_table = "(string \<times> pyval) list"

definition dict_keys :: "speed_table \<Rightarrow> pyval list" where
  "dict_keys d = map (\<lambda>kv. Str (fst kv)) d"

definition dict_values :: "speed_table \<Rightarrow> pyval list" where
  "dict_values d = map snd d"

definition shutter_speeds :: speed_table where
  "shutter_speeds =
  [(''bulb'', Str ''bulb''),
   (''30'', Num 30),
   (''25'', Num 25),
   (''20'', Num 20),
   (''15'', Num 15),
   (''13'', Num 13),
   (''10.3'', Num (103 / 10)),
   (''8'', Num 8),
   (''6.3'', Num (63 / 10)),
   (''5'', Num 5),
   (''4'', Num 4),
   (''3.2'', Num (32 / 10)),
   (''2.5'', Num (25 / 10)),
   (''2'', Num 2),
   (''1.6'', Num (16 / 10)),
   (''1.3'', Num (13 / 10)),
   (''1'', Num 1),
   (''0.8'', Num (8 / 10)),
   (''0.6'', Num (6 / 10)),
   (''0.5'', Num (5 / 10)),
   (''0.4'', Num (4 / 10)),
   (''0.3'', Num (3 / 10)),
   (''1/4'', Num (1 / 4)),
   (''1/5'', Num (1 / 5)),
   (''1/6'', Num (1 / 6)),
   (''1/8'', Num (1 / 8)),
   (''1/10'', Num (1 / 10)),
   (''1/13'', Num (1 / 13)),
   (''1/15'', Num (1 / 15)),
   (''1/20'', Num (1 / 20)),
   (''1/25'', Num (1 / 25)),
   (''1/30'', Num (1 / 30)),
   (''1/40'', Num (1 / 40)),
   (''1/50'', Num (1 / 50)),
   (''1/60'', Num (1 / 60)),
   (''1/80'', Num (1 / 80)),
   (''1/100'', Num (1 / 100)),
   (''1/125'', Num (1 / 125)),
   (''1/160'', Num (1 / 160)),
   (''1/200'', Num (1 / 200)),
   (''1/250'', Num (1 / 250)),
   (''1/320'', Num (1 / 320)),
   (''1/400'', Num (1 / 400)),
   (''1/500'', Num (1 / 500)),
   (''1/640'', Num (1 / 640)),
   (''1/800'', Num (1 / 800)),
   (''1/1000'', Num (1 / 1000)),
   (''1/1250'', Num (1 / 1250)),
   (''1/1600'', Num (1 / 1600)),
   (''1/2000'', Num (1 / 2000)),
   (''1/2500'', Num (1 / 2500)),
   (''1/3200'', Num (1 / 3200)),
   (''1/4000'', Num (1 / 4000))]"

text \<open>
  The body of \<^verbatim>\<open>Camera.get_shutterspeed_index\<close>, with the table it searches as an
  argument. \<^verbatim>\<open>seconds\<close> is the value after \<^verbatim>\<open>get_quantity_value\<close>, which returns a plain
  value unchanged. The outer \<^verbatim>\<open>try\<close> looks the value up among the keys; its
  \<^verbatim>\<open>except ValueError\<close> evaluates \<^verbatim>\<open>return_minimum and seconds < min(values[1:])\<close>
  (short-circuit: no \<^verbatim>\<open>min\<close> when the flag is false), then either returns
  \<^verbatim>\<open>len(shutter_speeds) - 1\<close> or looks the value up among the values. The inner
  \<^verbatim>\<open>except ValueError\<close> returns 0; it catches the \<^verbatim>\<open>ValueError\<close> of \<^verbatim>\<open>min\<close> as well as
  that of \<^verbatim>\<open>index\<close>. A \<^verbatim>\<open>TypeError\<close> is caught nowhere.
\<close>

definition minimum_test :: "speed_table \<Rightarrow> pyval \<Rightarrow> bool \<Rightarrow> error + bool" where
  "minimum_test d seconds return_minimum =
     (if return_minimum then
        (case py_min (drop 1 (dict_values d)) of
           Inl e \<Rightarrow> Inl e
         | Inr m \<Rightarrow> py_lt seconds m)
      else Inr False)"

text \<open>\<^verbatim>\<open>try: body / except ValueError: handler\<close>. Any other exception of the body
  passes through.\<close>

definition except_ValueError :: "error + 'a \<Rightarrow> error + 'a \<Rightarrow> error + 'a" where
  "except_ValueError body handler =
     (case body of
        Inr v \<Rightarrow> Inr v
      | Inl e \<Rightarrow> if e = ValueError then handler else Inl e)"

definition get_shutterspeed_index_in :: "speed_table \<Rightarrow> pyval \<Rightarrow> bool \<Rightarrow> error + int" where
  "get_shutterspeed_index_in d seconds return_minimum =
     except_ValueError (py_index (dict_keys d) seconds)
       (except_ValueError
          (case minimum_test d seconds return_minimum of
             Inl e \<Rightarrow> Inl e
           | Inr b \<Rightarrow>
               if b then Inr (int (length d) - 1)
               else py_index (dict_values d) seconds)
          (Inr 0))"

definition get_shutterspeed_index :: "pyval \<Rightarrow> bool \<Rightarrow> error + int" where
  "get_shutterspeed_index seconds return_minimum =
     get_shutterspeed_index_in shutter_speeds seconds return_minimum"

subsection \<open>The resolution rule as the specification words it\<close>

text \<open>The position of the first entry equal to the request, if there is one.\<close>

fun first_index :: "pyval list \<Rightarrow> pyval \<Rightarrow> nat option" where
  "first_index [] x = None"
| "first_index (y # ys) x =
     (if y = x then Some 0 else map_option Suc (first_index ys x))"

text \<open>A requested duration is shorter than a table entry when both are numbers and the
  request is the smaller one.\<close>

definition shorter_than :: "pyval \<Rightarrow> pyval \<Rightarrow> bool" where
  "shorter_than s v = (case (s, v) of (Num a, Num b) \<Rightarrow> a < b | _ \<Rightarrow> False)"

text \<open>
  The four-way precedence of the specification, in its order: (i) a match by key, (ii) else
  a match by value, (iii) else, with minimum-fallback requested and the request shorter than
  every entry after bulb, the last index, (iv) else 0.
\<close>

definition resolveShutterIndex :: "speed_table \<Rightarrow> pyval \<Rightarrow> bool \<Rightarrow> int" where
  "resolveShutterIndex d seconds returnMinimum =
     (case first_index (dict_keys d) seconds of
        Some i \<Rightarrow> int i
      | None \<Rightarrow>
          (case first_index (dict_values d) seconds of
             Some i \<Rightarrow> int i
           | None \<Rightarrow>
               if returnMinimum \<and> list_all (shorter_than seconds) (drop 1 (dict_values d))
               then int (length d) - 1 else 0))"

definition is_num :: "pyval \<Rightarrow> bool" where
  "is_num v = (case v of Num r \<Rightarrow> True | Str s \<Rightarrow> False)"

text \<open>The shape of a shutter-speed table: the bulb entry first, numbers after it.\<close>

definition bulb_first :: "speed_table \<Rightarrow> bool" where
  "bulb_first d =
     (case d of
        [] \<Rightarrow> False
      | kv # rest \<Rightarrow> kv = (''bulb'', Str ''bulb'') \<and> list_all (\<lambda>e. is_num (snd e)) rest)"

text \<open>The table of the specification's example scenario.\<close>

definition example_table :: speed_table where
  "example_table =
     [(''bulb'', Str ''bulb''), (''30'', Num 30), (''8'', Num 8), (''1'', Num 1),
      (''1/1000'', Num (1 / 1000))]"

section \<open>The gphoto2 command channel (camera/gphoto/base.py)\<close>

subsection \<open>The external process, as \<^verbatim>\<open>subprocess\<close> shows it\<close>

text \<open>
  A process started by \<^verbatim>\<open>subprocess.Popen\<close> is described by what the camera code can
  observe of it: the time after its start at which it exits by itself (\<open>None\<close>: it never
  does), what it has written to its two pipes by a given time, the time that has passed
  since its start, and whether it has been killed. Time is counted in seconds.
\<close>

record process =
  pid :: nat
  exit_after :: "rat option"
  returncode :: int
  out_by :: "rat \<Rightarrow> string"
  err_by :: "rat \<Rightarrow> string"
  elapsed :: rat
  killed :: bool

text \<open>\<^verbatim>\<open>poll()\<close>: the return code once the process has ended, \<^verbatim>\<open>None\<close> while it runs.\<close>

definition poll :: "process \<Rightarrow> int option" where
  "poll p =
     (if killed p then Some (- 9)
      else (case exit_after p of
              None \<Rightarrow> None
            | Some d \<Rightarrow> if d \<le> elapsed p then Some (returncode p) else None))"

datatype communicated = Output string string | TimeoutExpired | Blocked

text \<open>
  \<^verbatim>\<open>communicate(timeout)\<close> waits for the process to end and returns what it wrote. With a
  timeout it gives up when the process has not ended in time; without one it waits as long
  as it takes, which for a process that never ends and was not killed is forever
  (\<open>Blocked\<close>). A killed process has ended.
\<close>

definition communicate :: "rat option \<Rightarrow> process \<Rightarrow> communicated \<times> process" where
  "communicate timeout p =
     (if killed p then (Output (out_by p (elapsed p)) (err_by p (elapsed p)), p)
      else (case exit_after p of
              Some d \<Rightarrow>
                (case timeout of
                   Some t \<Rightarrow>
                     if d \<le> elapsed p + max 0 t
                     then (Output (out_by p d) (err_by p d), p\<lparr>elapsed := max (elapsed p) d\<rparr>)
                     else (TimeoutExpired, p\<lparr>elapsed := elapsed p + max 0 t\<rparr>)
                 | None \<Rightarrow>
                     (Output (out_by p d) (err_by p d), p\<lparr>elapsed := max (elapsed p) d\<rparr>))
            | None \<Rightarrow>
                (case timeout of
                   Some t \<Rightarrow> (TimeoutExpired, p\<lparr>elapsed := elapsed p + max 0 t\<rparr>)
                 | None \<Rightarrow> (Blocked, p))))"

text \<open>\<^verbatim>\<open>kill()\<close> ends a running process; it does nothing to one that has ended.\<close>

definition kill :: "process \<Rightarrow> process" where
  "kill p = (if poll p = None then p\<lparr>killed := True\<rparr> else p)"

text \<open>What \<^verbatim>\<open>subprocess.Popen(run_cmd, ...)\<close> does: a new process, or one of the
  exceptions the source tells apart.\<close>

datatype popen_result = Started process | RaisesOSError | RaisesValueError | RaisesOther

record host =
  which_gphoto2 :: "string option"
  popen :: "string option list \<Rightarrow> popen_result"

text \<open>The calls made on the outside world, in order, and the error-level log lines.\<close>

datatype event =
    Popen "string option list"
  | Communicate nat "rat option"
  | Kill nat
  | LogError string

text \<open>\<^verbatim>\<open>s.split(sep)\<close> for a one-character separator: never empty, one more piece than
  there are separators.\<close>

fun py_split :: "char \<Rightarrow> string \<Rightarrow> string list" where
  "py_split sep [] = [[]]"
| "py_split sep (c # cs) =
     (if c = sep then [] # py_split sep cs
      else (case py_split sep cs of
              [] \<Rightarrow> [[c]]
            | w # ws \<Rightarrow> (c # w) # ws))"

definition newline :: char where
  "newline = CHR 0x0A"

subsection \<open>The camera\<close>

text \<open>
  The fields of \<^verbatim>\<open>AbstractGPhotoCamera\<close> that the command channel reads and writes:
  \<^verbatim>\<open>port\<close>, the event behind \<^verbatim>\<open>is_exposing\<close> (set by the exposure code of
  \<^verbatim>\<open>AbstractCamera\<close>, never by \<^verbatim>\<open>command\<close>), and the holder \<^verbatim>\<open>_command_proc\<close>.
\<close>

record camera =
  port :: "string option"
  is_exposing_event :: bool
  command_proc :: "process option"

text \<open>The property \<^verbatim>\<open>is_exposing\<close>: clears the event when there is a process and it has
  ended, then reads the event.\<close>

definition is_exposing :: "camera \<Rightarrow> bool \<times> camera" where
  "is_exposing c =
     (let c' = (case command_proc c of
                  None \<Rightarrow> c
                | Some p \<Rightarrow> if poll p \<noteq> None then c\<lparr>is_exposing_event := False\<rparr> else c)
      in (is_exposing_event c', c'))"

text \<open>\<^verbatim>\<open>cmd\<close> is a string or a list of strings; \<^verbatim>\<open>listify\<close> wraps a string in a list.\<close>

datatype cmd = Single string | Several "string list"

fun listify :: "cmd \<Rightarrow> string list" where
  "listify (Single s) = [s]"
| "listify (Several xs) = xs"

definition already_running :: error where
  "already_running = InvalidCommand ''Command already running''"

text \<open>
  \<^verbatim>\<open>command\<close>: raise when \<^verbatim>\<open>is_exposing\<close>; otherwise build \<^verbatim>\<open>run_cmd\<close> from the
  executable found by \<^verbatim>\<open>shutil.which\<close> (possibly \<^verbatim>\<open>None\<close>), the port and the
  arguments, start the process and store it. The messages of the re-raised errors are cut
  to their fixed prefix.
\<close>

definition command :: "host \<Rightarrow> cmd \<Rightarrow> camera \<Rightarrow> (error + unit) \<times> camera \<times> event list" where
  "command h args c =
     (case is_exposing c of
        (True, c') \<Rightarrow> (Inl already_running, c', [])
      | (False, c') \<Rightarrow>
          (let run_cmd =
                 [which_gphoto2 h]
                 @ (case port c' of None \<Rightarrow> [] | Some p \<Rightarrow> [Some ''--port'', Some p])
                 @ map Some (listify args)
           in (case popen h run_cmd of
                 Started p \<Rightarrow> (Inr (), c'\<lparr>command_proc := Some p\<rparr>, [Popen run_cmd])
               | RaisesOSError \<Rightarrow>
                   (Inl (InvalidCommand ''Can't send command to gphoto2.''), c', [Popen run_cmd])
               | RaisesValueError \<Rightarrow>
                   (Inl (InvalidCommand ''Bad parameters to gphoto2.''), c', [Popen run_cmd])
               | RaisesOther \<Rightarrow> (Inl (PanError ''''), c', [Popen run_cmd]))))"

text \<open>The tail of \<^verbatim>\<open>get_command_result\<close> once output has been collected: log a non-empty
  error stream, split the output into lines, empty the holder.\<close>

definition collected ::
  "camera \<Rightarrow> event list \<Rightarrow> string \<Rightarrow> string \<Rightarrow> (error + string list option) \<times> camera \<times> event list" where
  "collected c evs outs errs =
     (Inr (Some (py_split newline outs)),
      c\<lparr>command_proc := None\<rparr>,
      evs @ (if errs \<noteq> [] then [LogError errs] else []))"

text \<open>
  \<^verbatim>\<open>get_command_result\<close>. The result is \<open>None\<close> when the call never returns. A
  \<^verbatim>\<open>TimeoutExpired\<close> of the first \<^verbatim>\<open>communicate\<close> is caught: the process is killed and
  \<^verbatim>\<open>communicate\<close> is called again without a timeout; one raised by that second call
  would leave the function.
\<close>

definition get_command_result ::
  "rat \<Rightarrow> camera \<Rightarrow> ((error + string list option) \<times> camera \<times> event list) option" where
  "get_command_result timeout c =
     (case command_proc c of
        None \<Rightarrow> Some (Inr None, c, [])
      | Some p \<Rightarrow>
          (case communicate (Some timeout) p of
             (Output outs errs, p1) \<Rightarrow>
               Some (collected c [Communicate (pid p) (Some timeout)] outs errs)
           | (Blocked, p1) \<Rightarrow> None
           | (TimeoutExpired, p1) \<Rightarrow>
               (case communicate None (kill p1) of
                  (Output outs errs, p2) \<Rightarrow>
                    Some (collected c
                      [Communicate (pid p) (Some timeout), Kill (pid p), Communicate (pid p) None]
                      outs errs)
                | (Blocked, p2) \<Rightarrow> None
                | (TimeoutExpired, p2) \<Rightarrow>
                    Some (Inl (OtherException ''TimeoutExpired''),
                          c\<lparr>command_proc := Some p2\<rparr>,
                          [Communicate (pid p) (Some timeout), Kill (pid p),
                           Communicate (pid p) None]))))"

text \<open>Whether the process ends within \<open>t\<close> seconds from now.\<close>

definition exits_within :: "process \<Rightarrow> rat \<Rightarrow> bool" where
  "exits_within p t =
     (killed p \<or>
      (case exit_after p of None \<Rightarrow> False | Some d \<Rightarrow> d \<le> elapsed p + max 0 t))"

text \<open>Time passing while the camera code does nothing: the process of the holder, if any,
  grows older.\<close>

definition wait :: "rat \<Rightarrow> camera \<Rightarrow> camera" where
  "wait t c =
     (case command_proc c of
        None \<Rightarrow> c
      | Some p \<Rightarrow> c\<lparr>command_proc := Some (p\<lparr>elapsed := elapsed p + max 0 t\<rparr>)\<rparr>)"

subsection \<open>A camera and a host to run the channel on\<close>

text \<open>A gphoto2 run that takes five seconds and writes one line after two of them.\<close>

definition slow_process :: "nat \<Rightarrow> process" where
  "slow_process n =
     \<lparr>pid = n, exit_after = Some 5, returncode = 0,
      out_by = (\<lambda>t. if t < 2 then [] else if t < 5 then ''Label: x''
                     else ''Label: x'' @ [newline] @ ''Current: 7''),
      err_by = (\<lambda>t. []), elapsed = 0, killed = False\<rparr>"

text \<open>A gphoto2 run that hangs: it has written one line after a second, two lines and the
  start of a third after two seconds, by then also a message on its error stream, and it
  never ends.\<close>

definition hung_process :: "nat \<Rightarrow> process" where
  "hung_process n =
     \<lparr>pid = n, exit_after = None, returncode = 0,
      out_by = (\<lambda>t. if t < 1 then [] else if t < 2 then ''Label: x'' @ [newline]
                     else ''Label: x'' @ [newline] @ ''Current: 7'' @ [newline] @ ''Cho''),
      err_by = (\<lambda>t. if t < 2 then [] else ''device busy''), elapsed = 0, killed = False\<rparr>"

text \<open>A host on which gphoto2 is installed; the process started for a command gets the
  number of its arguments as its pid.\<close>

definition lab_host :: host where
  "lab_host =
     \<lparr>which_gphoto2 = Some ''/usr/bin/gphoto2'',
      popen = (\<lambda>run_cmd. Started (slow_process (length run_cmd)))\<rparr>"

definition idle_camera :: camera where
  "idle_camera = \<lparr>port = Some ''usb:001,004'', is_exposing_event = False, command_proc = None\<rparr>"

section \<open>The observatory (observatory.py)\<close>

subsection \<open>Dictionaries that keep insertion order\<close>

text \<open>
  \<^verbatim>\<open>OrderedDict\<close> (and \<^verbatim>\<open>dict\<close>) as an association list in insertion order. Assigning to
  a key that is present replaces the value where it stands; assigning to a new key appends;
  \<^verbatim>\<open>del\<close> of a missing key raises \<^verbatim>\<open>KeyError\<close>.
\<close>

fun od_get :: "('k \<times> 'v) list \<Rightarrow> 'k \<Rightarrow> 'v option" where
  "od_get [] k = None"
| "od_get ((k', v') # rest) k = (if k' = k then Some v' else od_get rest k)"

fun od_set :: "'k \<Rightarrow> 'v \<Rightarrow> ('k \<times> 'v) list \<Rightarrow> ('k \<times> 'v) list" where
  "od_set k v [] = [(k, v)]"
| "od_set k v ((k', v') # rest) =
     (if k' = k then (k, v) # rest else (k', v') # od_set k v rest)"

fun od_del :: "'k \<Rightarrow> ('k \<times> 'v) list \<Rightarrow> error + ('k \<times> 'v) list" where
  "od_del k [] = Inl KeyError"
| "od_del k ((k', v') # rest) =
     (if k' = k then Inr rest
      else (case od_del k rest of Inl e \<Rightarrow> Inl e | Inr rest' \<Rightarrow> Inr ((k', v') # rest')))"

definition od_keys :: "('k \<times> 'v) list \<Rightarrow> 'k list" where
  "od_keys d = map fst d"

subsection \<open>The camera registry\<close>

text \<open>What the observatory reads of a camera object: its flag \<^verbatim>\<open>is_primary\<close> and the
  two durations \<^verbatim>\<open>readout_time\<close> and \<^verbatim>\<open>timeout\<close>, in seconds. The argument of
  \<^verbatim>\<open>add_camera\<close> is any object; the \<^verbatim>\<open>assert isinstance(camera, AbstractCamera)\<close> tells
  the two kinds apart.\<close>

record obs_camera =
  uid :: string
  is_primary :: bool
  cam_readout_time :: rat
  cam_timeout :: rat

datatype pyobj = CameraObj obs_camera | OtherObj

record observatory =
  cameras :: "(string \<times> obs_camera) list"
  primary_camera_field :: "obs_camera option"

text \<open>The setter of \<^verbatim>\<open>primary_camera\<close>: flags the camera and stores it.\<close>

definition set_primary_camera :: "obs_camera \<Rightarrow> observatory \<Rightarrow> observatory" where
  "set_primary_camera cam obs = obs\<lparr>primary_camera_field := Some (cam\<lparr>is_primary := True\<rparr>)\<rparr>"

definition add_camera :: "string \<Rightarrow> pyobj \<Rightarrow> observatory \<Rightarrow> error + observatory" where
  "add_camera cam_name obj obs =
     (case obj of
        OtherObj \<Rightarrow> Inl AssertionError
      | CameraObj camera \<Rightarrow>
          (let obs1 = obs\<lparr>cameras := od_set cam_name camera (cameras obs)\<rparr>
           in if is_primary camera then Inr (set_primary_camera camera obs1) else Inr obs1))"

definition remove_camera :: "string \<Rightarrow> observatory \<Rightarrow> error + observatory" where
  "remove_camera cam_name obs =
     (case od_del cam_name (cameras obs) of
        Inl e \<Rightarrow> Inl e
      | Inr cams \<Rightarrow> Inr (obs\<lparr>cameras := cams\<rparr>))"

subsection \<open>Processing an observation\<close>

type_synonym metadata = "(string \<times> pyval) list"

record exposure =
  path :: pyval
  metadata :: metadata

text \<open>\<^verbatim>\<open>current_observation.exposure_list\<close>: for each camera name its exposures, the most
  recent one last.\<close>

type_synonym exposure_list = "(string \<times> exposure list) list"

text \<open>The five arguments of \<^verbatim>\<open>process_observation\<close> (\<^verbatim>\<open>None\<close>, \<^verbatim>\<open>True\<close> or \<^verbatim>\<open>False\<close>) and
  the five \<^verbatim>\<open>observations.*\<close> keys of the configuration they fall back on.\<close>

record options =
  compress_fits :: "bool option"
  record_observations :: "bool option"
  make_pretty_images :: "bool option"
  plate_solve :: "bool option"
  upload_image_immediately :: "bool option"

record config =
  cfg_compress_fits :: bool
  cfg_record_observations :: bool
  cfg_make_pretty_images :: bool
  cfg_plate_solve :: bool
  cfg_upload_image_immediately :: bool

text \<open>\<^verbatim>\<open>arg or self.get_config(key, default=False)\<close>\<close>

definition enabled :: "bool option \<Rightarrow> bool \<Rightarrow> bool" where
  "enabled arg cfg = (arg = Some True \<or> cfg)"

text \<open>
  The collaborators a step calls, each returning its value or raising:
  \<^verbatim>\<open>fits_utils.get_solve_field\<close>, \<^verbatim>\<open>fits_utils.fpack\<close>, \<^verbatim>\<open>self.db.insert_current\<close>, the
  start of the pretty-image process (given the file path and whether a link is made) and
  \<^verbatim>\<open>self.upload_exposure\<close>.
\<close>

record services =
  get_solve_field :: "pyval \<Rightarrow> error + metadata"
  fpack :: "pyval \<Rightarrow> error + pyval"
  insert_current :: "metadata \<Rightarrow> error + unit"
  start_pretty_process :: "pyval \<Rightarrow> bool \<Rightarrow> error + unit"
  upload_exposure :: "exposure \<Rightarrow> error + unit"

datatype step = Solve | Compress | Record | Pretty | Upload

text \<open>What a run leaves behind: \<open>Ran n s\<close> when the block of step \<open>s\<close> is entered for the
  camera named \<open>n\<close>, \<open>Warned n s\<close> when an exception of that block is caught and logged
  as a warning.\<close>

datatype trace_event = Ran string step | Warned string step

datatype flow = Next | Return | Raise error

text \<open>
  The local variables of one turn of the loop. \<^verbatim>\<open>metadata\<close> starts as the very dict of
  the exposure, so that writes to it are writes to the exposure; the solve step rebinds it
  to the dict that \<^verbatim>\<open>get_solve_field\<close> returns, and from then on it is a dict of its own
  (\<open>aliased\<close> is false).
\<close>

record locals =
  the_exposure :: exposure
  md :: metadata
  aliased :: bool
  file_path :: pyval
  trace :: "trace_event list"

definition emit :: "trace_event list \<Rightarrow> locals \<Rightarrow> locals" where
  "emit evs st = st\<lparr>trace := trace st @ evs\<rparr>"

text \<open>\<^verbatim>\<open>metadata[k] = v\<close>\<close>

definition set_md :: "string \<Rightarrow> pyval \<Rightarrow> locals \<Rightarrow> locals" where
  "set_md k v st =
     (let st1 = st\<lparr>md := od_set k v (md st)\<rparr>
      in if aliased st
         then st1\<lparr>the_exposure := (the_exposure st)\<lparr>metadata := od_set k v (md st)\<rparr>\<rparr>
         else st1)"

text \<open>Python's truth value of a string or number.\<close>

definition truthy :: "pyval \<Rightarrow> bool" where
  "truthy v = (case v of Str s \<Rightarrow> s \<noteq> [] | Num r \<Rightarrow> r \<noteq> 0)"

text \<open>The solve step: everything inside \<^verbatim>\<open>try\<close>, with \<^verbatim>\<open>except Exception\<close> logging a
  warning. A missing \<^verbatim>\<open>solved_fits_file\<close> is a \<^verbatim>\<open>KeyError\<close> raised after
  \<^verbatim>\<open>metadata\<close> was rebound.\<close>

definition solve_step :: "services \<Rightarrow> string \<Rightarrow> locals \<Rightarrow> flow \<times> locals" where
  "solve_step sv n st =
     (case get_solve_field sv (file_path st) of
        Inl e \<Rightarrow> (Next, emit [Ran n Solve, Warned n Solve] st)
      | Inr solved \<Rightarrow>
          (let st1 = st\<lparr>md := solved, aliased := False\<rparr>
           in (case od_get solved ''solved_fits_file'' of
                 None \<Rightarrow> (Next, emit [Ran n Solve, Warned n Solve] st1)
               | Some fp \<Rightarrow> (Next, emit [Ran n Solve] (st1\<lparr>file_path := fp\<rparr>)))))"

text \<open>The compress step has no \<^verbatim>\<open>try\<close>: an exception of \<^verbatim>\<open>fpack\<close> leaves the method.\<close>

definition compress_step :: "services \<Rightarrow> string \<Rightarrow> locals \<Rightarrow> flow \<times> locals" where
  "compress_step sv n st =
     (case fpack sv (file_path st) of
        Inl e \<Rightarrow> (Raise e, emit [Ran n Compress] st)
      | Inr compressed \<Rightarrow>
          (Next,
           emit [Ran n Compress]
             (set_md ''filepath'' compressed
                (st\<lparr>the_exposure := (the_exposure st)\<lparr>path := compressed\<rparr>\<rparr>))))"

text \<open>The record step has no \<^verbatim>\<open>try\<close> either.\<close>

definition record_step :: "services \<Rightarrow> string \<Rightarrow> locals \<Rightarrow> flow \<times> locals" where
  "record_step sv n st =
     (let st1 = set_md ''status'' (Str ''complete'') st
      in (case insert_current sv (md st1) of
            Inl e \<Rightarrow> (Raise e, emit [Ran n Record] st1)
          | Inr u \<Rightarrow> (Next, emit [Ran n Record] st1)))"

text \<open>The pretty-image step, inside \<^verbatim>\<open>try\<close>: \<^verbatim>\<open>metadata['is_primary']\<close> may be missing,
  and starting the process may fail.\<close>

definition pretty_step :: "services \<Rightarrow> string \<Rightarrow> locals \<Rightarrow> flow \<times> locals" where
  "pretty_step sv n st =
     (case od_get (md st) ''is_primary'' of
        None \<Rightarrow> (Next, emit [Ran n Pretty, Warned n Pretty] st)
      | Some prim \<Rightarrow>
          (case start_pretty_process sv (file_path st) (truthy prim) of
             Inl e \<Rightarrow> (Next, emit [Ran n Pretty, Warned n Pretty] st)
           | Inr u \<Rightarrow> (Next, emit [Ran n Pretty] st)))"

definition upload_step :: "services \<Rightarrow> string \<Rightarrow> locals \<Rightarrow> flow \<times> locals" where
  "upload_step sv n st =
     (case upload_exposure sv (the_exposure st) of
        Inl e \<Rightarrow> (Next, emit [Ran n Upload, Warned n Upload] st)
      | Inr u \<Rightarrow> (Next, emit [Ran n Upload] st))"

text \<open>\<^verbatim>\<open>if flag: step\<close>, and the sequence of two statements.\<close>

definition guarded :: "bool \<Rightarrow> (locals \<Rightarrow> flow \<times> locals) \<Rightarrow> locals \<Rightarrow> flow \<times> locals" where
  "guarded b f st = (if b then f st else (Next, st))"

definition and_then ::
  "(locals \<Rightarrow> flow \<times> locals) \<Rightarrow> (locals \<Rightarrow> flow \<times> locals) \<Rightarrow> locals \<Rightarrow> flow \<times> locals" where
  "and_then f g st =
     (case f st of
        (Next, st1) \<Rightarrow> g st1
      | (Return, st1) \<Rightarrow> (Return, st1)
      | (Raise e, st1) \<Rightarrow> (Raise e, st1))"

definition required_fields :: "string list" where
  "required_fields = [''image_id'', ''sequence_id'', ''filepath'', ''exptime'']"

definition no_information :: error where
  "no_information = PanError ''No information in image metadata, unable to process''"

text \<open>An exposure that has the required fields and is marked complete.\<close>

definition is_complete :: "exposure \<Rightarrow> bool" where
  "is_complete ex =
     (list_all (\<lambda>k. od_get (metadata ex) k \<noteq> None) required_fields \<and>
      od_get (metadata ex) ''status'' = Some (Str ''complete''))"

text \<open>An exposure that has the required fields and is not marked complete.\<close>

definition is_pending :: "exposure \<Rightarrow> bool" where
  "is_pending ex =
     (list_all (\<lambda>k. od_get (metadata ex) k \<noteq> None) required_fields \<and>
      od_get (metadata ex) ''status'' \<noteq> Some (Str ''complete''))"

text \<open>The five steps in the order of the source.\<close>

definition pipeline :: "options \<Rightarrow> config \<Rightarrow> services \<Rightarrow> string \<Rightarrow> locals \<Rightarrow> flow \<times> locals" where
  "pipeline opts cfg sv n =
     and_then (guarded (enabled (plate_solve opts) (cfg_plate_solve cfg)) (solve_step sv n))
    (and_then (guarded (enabled (compress_fits opts) (cfg_compress_fits cfg)) (compress_step sv n))
    (and_then (guarded (enabled (record_observations opts) (cfg_record_observations cfg))
                 (record_step sv n))
    (and_then (guarded (enabled (make_pretty_images opts) (cfg_make_pretty_images cfg))
                 (pretty_step sv n))
              (guarded (enabled (upload_image_immediately opts) (cfg_upload_image_immediately cfg))
                 (upload_step sv n)))))"

text \<open>
  The body of the loop for one exposure: the required fields (a missing one is a
  \<^verbatim>\<open>KeyError\<close> turned into \<^verbatim>\<open>PanError\<close>), the test for \<^verbatim>\<open>status == 'complete'\<close>, whose
  \<^verbatim>\<open>return\<close> leaves the method, then the steps. It yields the exposure as the turn leaves
  it and what the turn did.
\<close>

definition process_exposure ::
  "options \<Rightarrow> config \<Rightarrow> services \<Rightarrow> string \<Rightarrow> exposure \<Rightarrow> flow \<times> exposure \<times> trace_event list" where
  "process_exposure opts cfg sv n ex =
     (if \<not> list_all (\<lambda>k. od_get (metadata ex) k \<noteq> None) required_fields
      then (Raise no_information, ex, [])
      else if od_get (metadata ex) ''status'' = Some (Str ''complete'')
      then (Return, ex, [])
      else (case od_get (metadata ex) ''filepath'' of
              None \<Rightarrow> (Raise no_information, ex, [])
            | Some fp \<Rightarrow>
                (case pipeline opts cfg sv n
                        \<lparr>the_exposure = ex, md = metadata ex, aliased = True,
                         file_path = fp, trace = []\<rparr> of
                   (fl, st) \<Rightarrow> (fl, the_exposure st, trace st))))"

text \<open>\<^verbatim>\<open>exposure_list[cam_name][-1]\<close>: \<^verbatim>\<open>KeyError\<close> for an unknown name, \<^verbatim>\<open>IndexError\<close> for
  an empty list.\<close>

definition latest_exposure :: "exposure_list \<Rightarrow> string \<Rightarrow> error + exposure" where
  "latest_exposure el n =
     (case od_get el n of
        None \<Rightarrow> Inl KeyError
      | Some [] \<Rightarrow> Inl IndexError
      | Some (e # es) \<Rightarrow> Inr (last (e # es)))"

text \<open>The exposure is an object of the list: what a turn does to it shows in the list.\<close>

definition store_latest :: "string \<Rightarrow> exposure \<Rightarrow> exposure_list \<Rightarrow> exposure_list" where
  "store_latest n ex el =
     (case od_get el n of
        None \<Rightarrow> el
      | Some exs \<Rightarrow> od_set n (butlast exs @ [ex]) el)"

text \<open>The loop over \<^verbatim>\<open>self.cameras.keys()\<close>.\<close>

fun process_cameras ::
  "options \<Rightarrow> config \<Rightarrow> services \<Rightarrow> string list \<Rightarrow> exposure_list \<Rightarrow>
   flow \<times> exposure_list \<times> trace_event list" where
  "process_cameras opts cfg sv [] el = (Next, el, [])"
| "process_cameras opts cfg sv (n # ns) el =
     (case latest_exposure el n of
        Inl e \<Rightarrow> (Raise e, el, [])
      | Inr ex \<Rightarrow>
          (case process_exposure opts cfg sv n ex of
             (Next, ex1, tr) \<Rightarrow>
               (case process_cameras opts cfg sv ns (store_latest n ex1 el) of
                  (fl, el2, tr2) \<Rightarrow> (fl, el2, tr @ tr2))
           | (Return, ex1, tr) \<Rightarrow> (Return, store_latest n ex1 el, tr)
           | (Raise e, ex1, tr) \<Rightarrow> (Raise e, store_latest n ex1 el, tr)))"

text \<open>\<^verbatim>\<open>process_observation\<close>: the loop over the names of the registry; the method returns
  \<^verbatim>\<open>None\<close> at its end and at its \<^verbatim>\<open>return\<close> alike.\<close>

definition process_observation ::
  "options \<Rightarrow> config \<Rightarrow> services \<Rightarrow> observatory \<Rightarrow> exposure_list \<Rightarrow>
   (error + unit) \<times> exposure_list \<times> trace_event list" where
  "process_observation opts cfg sv obs el =
     (case process_cameras opts cfg sv (od_keys (cameras obs)) el of
        (Raise e, el1, tr) \<Rightarrow> (Inl e, el1, tr)
      | (fl, el1, tr) \<Rightarrow> (Inr (), el1, tr))"

subsection \<open>An observatory to run the pipeline on\<close>

definition all_steps :: options where
  "all_steps =
     \<lparr>compress_fits = Some True, record_observations = Some True,
      make_pretty_images = Some True, plate_solve = Some True,
      upload_image_immediately = Some True\<rparr>"

definition no_config :: config where
  "no_config =
     \<lparr>cfg_compress_fits = False, cfg_record_observations = False,
      cfg_make_pretty_images = False, cfg_plate_solve = False,
      cfg_upload_image_immediately = False\<rparr>"

text \<open>Services that all work, and the same with an \<^verbatim>\<open>fpack\<close> that fails, a solver that
  fails, and an upload that fails.\<close>

definition good_services :: services where
  "good_services =
     \<lparr>get_solve_field = (\<lambda>fp. Inr [(''solved_fits_file'', Str ''solved.fits''),
                                      (''is_primary'', Num 1)]),
      fpack = (\<lambda>fp. Inr (Str ''image.fits.fz'')),
      insert_current = (\<lambda>m. Inr ()),
      start_pretty_process = (\<lambda>fp link. Inr ()),
      upload_exposure = (\<lambda>ex. Inr ())\<rparr>"

definition fpack_fails :: services where
  "fpack_fails = good_services\<lparr>fpack := (\<lambda>fp. Inl (OtherException ''fpack''))\<rparr>"

definition solve_fails :: services where
  "solve_fails = good_services\<lparr>get_solve_field := (\<lambda>fp. Inl (OtherException ''solve-field''))\<rparr>"

definition upload_fails :: services where
  "upload_fails = good_services\<lparr>upload_exposure := (\<lambda>ex. Inl (OtherException ''upload''))\<rparr>"

definition fresh_exposure :: exposure where
  "fresh_exposure =
     \<lparr>path = Str ''image.fits'',
      metadata = [(''image_id'', Str ''PAN001_14d3bd_20210101T000000''),
                  (''sequence_id'', Str ''PAN001_14d3bd_20210101T000000''),
                  (''filepath'', Str ''image.fits''), (''exptime'', Num 120),
                  (''is_primary'', Num 1)]\<rparr>"

definition complete_exposure :: exposure where
  "complete_exposure =
     fresh_exposure\<lparr>metadata := od_set ''status'' (Str ''complete'') (metadata fresh_exposure)\<rparr>"

definition cam00 :: obs_camera where
  "cam00 = \<lparr>uid = ''14d3bd'', is_primary = True, cam_readout_time = 1, cam_timeout = 5\<rparr>"

definition cam01 :: obs_camera where
  "cam01 = \<lparr>uid = ''ee04d1'', is_primary = False, cam_readout_time = 2, cam_timeout = 10\<rparr>"

definition cam02 :: obs_camera where
  "cam02 = \<lparr>uid = ''7bab97'', is_primary = False, cam_readout_time = 1, cam_timeout = 5\<rparr>"

definition two_cameras :: observatory where
  "two_cameras =
     \<lparr>cameras = [(''Cam00'', cam00), (''Cam01'', cam01)], primary_camera_field = Some cam00\<rparr>"

text \<open>The camera an event of a run belongs to.\<close>

fun event_name :: "trace_event \<Rightarrow> string" where
  "event_name (Ran n s) = n"
| "event_name (Warned n s) = n"

text \<open>Two exposure lists for the two cameras: one where the second camera's latest
  exposure is complete, one where the first camera's is.\<close>

definition second_done :: exposure_list where
  "second_done =
     [(''Cam00'', [fresh_exposure]), (''Cam01'', [fresh_exposure, complete_exposure])]"

definition first_done :: exposure_list where
  "first_done = [(''Cam00'', [complete_exposure]), (''Cam01'', [fresh_exposure])]"

definition both_fresh :: exposure_list where
  "both_fresh = [(''Cam00'', [fresh_exposure]), (''Cam01'', [fresh_exposure])]"

text \<open>Every event of the trace so far belongs to the camera named \<open>n\<close>.\<close>

definition tagged :: "string \<Rightarrow> locals \<Rightarrow> bool" where
  "tagged n st = list_all (\<lambda>ev. event_name ev = n) (trace st)"

subsection \<open>Taking an observation and waiting for the cameras\<close>

text \<open>The getter of \<^verbatim>\<open>primary_camera\<close>: the stored camera, or the first camera of the
  registry when none is stored and there are cameras.\<close>

definition primary_camera :: "observatory \<Rightarrow> obs_camera option" where
  "primary_camera obs =
     (case primary_camera_field obs of
        Some cam \<Rightarrow> Some cam
      | None \<Rightarrow> (case cameras obs of [] \<Rightarrow> None | (n, cam) # rest \<Rightarrow> Some cam))"

text \<open>
  The \<^verbatim>\<open>CountdownTimer\<close> of panoptes-utils, by its duration and by the time that has
  passed since it was started, in seconds. Time passes while the timer sleeps and at no
  other moment: a poll of the cameras takes no time.
\<close>

record timer =
  duration :: rat
  clock :: rat

text \<open>\<^verbatim>\<open>CountdownTimer(duration)\<close> asserts that the duration is not negative.\<close>

definition new_timer :: "rat \<Rightarrow> error + timer" where
  "new_timer d = (if d < 0 then Inl AssertionError else Inr \<lparr>duration = d, clock = 0\<rparr>)"

definition time_left :: "timer \<Rightarrow> rat" where
  "time_left tm = max 0 (duration tm - clock tm)"

definition expired :: "timer \<Rightarrow> bool" where
  "expired tm = (time_left tm \<le> 0)"

text \<open>The calls \<^verbatim>\<open>observe\<close> makes, in order: \<^verbatim>\<open>camera.take_observation\<close>,
  \<^verbatim>\<open>CountdownTimer(timeout)\<close>, a sleep of the given length, and a poll of all cameras with
  the time at which it is made and the answers it gets.\<close>

datatype observe_event =
    TakeObservation string
  | NewTimer rat
  | Slept rat
  | Polled rat "bool list"

text \<open>
  \<^verbatim>\<open>timer.sleep(max_sleep)\<close> sleeps until the timer expires, or for \<^verbatim>\<open>max_sleep\<close>,
  whichever is sooner. It does nothing when no time is left; a \<^verbatim>\<open>max_sleep\<close> of 0 is no
  bound (\<^verbatim>\<open>if max_sleep and max_sleep < remaining\<close>), and one that is a bound is asserted
  to be positive.
\<close>

definition timer_sleep :: "rat \<Rightarrow> timer \<Rightarrow> error + timer \<times> observe_event list" where
  "timer_sleep max_sleep tm =
     (let remaining = time_left tm
      in if remaining = 0 then Inr (tm, [])
         else if max_sleep \<noteq> 0 \<and> max_sleep < remaining
         then (if 0 < max_sleep
               then Inr (tm\<lparr>clock := clock tm + max_sleep\<rparr>, [Slept max_sleep])
               else Inl AssertionError)
         else Inr (tm\<lparr>clock := clock tm + remaining\<rparr>, [Slept remaining]))"

text \<open>\<^verbatim>\<open>all([cam.is_observing is False for cam in self.cameras.values()])\<close>, on the answers
  of the cameras in registry order.\<close>

definition all_idle :: "bool list \<Rightarrow> bool" where
  "all_idle answers = list_all (\<lambda>a. a = False) answers"

text \<open>How far the timer is from expiring, counted in sleeps of the given length.\<close>

definition sleeps_left :: "rat \<Rightarrow> timer \<Rightarrow> nat" where
  "sleeps_left readout tm =
     (if 0 < readout then nat \<lceil>time_left tm / readout\<rceil>
      else if 0 < time_left tm then 1 else 0)"

text \<open>
  The \<^verbatim>\<open>while timer.expired() is False\<close> loop. \<open>observing t\<close> lists what the cameras
  answer to \<^verbatim>\<open>is_observing\<close> at time \<open>t\<close>. The loop yields the timer as it leaves it and
  the calls it made.
\<close>

function wait_loop ::
  "(rat \<Rightarrow> bool list) \<Rightarrow> rat \<Rightarrow> timer \<Rightarrow> (error + unit) \<times> timer \<times> observe_event list" where
  "wait_loop observing readout tm =
     (if expired tm then (Inr (), tm, [])
      else if all_idle (observing (clock tm))
      then (Inr (), tm, [Polled (clock tm) (observing (clock tm))])
      else (case timer_sleep readout tm of
              Inl e \<Rightarrow> (Inl e, tm, [Polled (clock tm) (observing (clock tm))])
            | Inr (tm1, slept) \<Rightarrow>
                (case wait_loop observing readout tm1 of
                   (r, tm2, evs) \<Rightarrow>
                     (r, tm2, Polled (clock tm) (observing (clock tm)) # slept @ evs))))"
  by pat_completeness auto
termination
proof (relation "measure (\<lambda>(observing, readout, tm). sleeps_left readout tm)")
  show "wf (measure (\<lambda>(observing, readout, tm). sleeps_left readout tm))"
    by simp
next
  fix observing :: "rat \<Rightarrow> bool list" and readout :: rat and tm tm1 :: timer
    and x :: "timer \<times> observe_event list" and slept :: "observe_event list"
  assume run: "\<not> expired tm" and sl: "timer_sleep readout tm = Inr x" and x: "(tm1, slept) = x"
  from run have left: "0 < time_left tm" by (simp add: expired_def)
  then have open_timer: "time_left tm = duration tm - clock tm" "clock tm < duration tm"
    by (auto simp: time_left_def max_def split: if_splits)
  show "((observing, readout, tm1), (observing, readout, tm))
          \<in> measure (\<lambda>(observing, readout, tm). sleeps_left readout tm)"
  proof (cases "readout \<noteq> 0 \<and> readout < time_left tm")
    case True
    with sl x left have pos: "0 < readout" and tm1: "tm1 = tm\<lparr>clock := clock tm + readout\<rparr>"
      by (auto simp: timer_sleep_def Let_def split: if_splits)
    from True open_timer have "clock tm + readout < duration tm" by simp
    with tm1 open_timer have tl: "time_left tm1 = time_left tm - readout"
      by (simp add: time_left_def)
    have "time_left tm1 / readout = time_left tm / readout - 1"
      using pos by (simp add: tl diff_divide_distrib)
    then have c: "\<lceil>time_left tm1 / readout\<rceil> = \<lceil>time_left tm / readout\<rceil> - 1"
      by simp
    have "0 < time_left tm / readout" using left pos by simp
    then have "0 < \<lceil>time_left tm / readout\<rceil>" by (simp add: less_ceiling_iff)
    with c pos show ?thesis by (simp add: sleeps_left_def)
  next
    case False
    with sl x left have tm1: "tm1 = tm\<lparr>clock := clock tm + time_left tm\<rparr>"
      by (auto simp: timer_sleep_def Let_def split: if_splits)
    with open_timer have tl: "time_left tm1 = 0"
      by (simp add: time_left_def)
    show ?thesis
    proof (cases "0 < readout")
      case True
      with left have "0 < time_left tm / readout" by simp
      then have "0 < \<lceil>time_left tm / readout\<rceil>" by (simp add: less_ceiling_iff)
      with True tl show ?thesis by (simp add: sleeps_left_def)
    next
      case False
      with left tl show ?thesis by (simp add: sleeps_left_def)
    qed
  qed
qed

declare wait_loop.simps [simp del]

text \<open>
  \<^verbatim>\<open>observe\<close>, from the first loop on (the headers are computed before and play no part
  in the wait; \<^verbatim>\<open>take_observation\<close>, of \<^verbatim>\<open>AbstractCamera\<close>, starts the exposure and
  returns). After the loop the timer is read once more, and \<^verbatim>\<open>TimeoutError\<close> is raised when
  it has expired.
\<close>

definition observe ::
  "bool \<Rightarrow> rat \<Rightarrow> (rat \<Rightarrow> bool list) \<Rightarrow> observatory \<Rightarrow> (error + unit) \<times> observe_event list" where
  "observe blocking exptime observing obs =
     (let taken = map TakeObservation (od_keys (cameras obs))
      in if \<not> blocking then (Inr (), taken)
         else (case primary_camera obs of
                 None \<Rightarrow> (Inl AttributeError, taken)
               | Some cam \<Rightarrow>
                   (let readout_time = cam_readout_time cam;
                        timeout = exptime + readout_time + cam_timeout cam
                    in (case new_timer timeout of
                          Inl e \<Rightarrow> (Inl e, taken)
                        | Inr timer \<Rightarrow>
                            (case timer_sleep (exptime + readout_time) timer of
                               Inl e \<Rightarrow> (Inl e, taken @ [NewTimer timeout])
                             | Inr (tm1, slept) \<Rightarrow>
                                 (case wait_loop observing readout_time tm1 of
                                    (r, tm2, polls) \<Rightarrow>
                                      (case r of
                                         Inl e \<Rightarrow> Inl e
                                       | Inr u \<Rightarrow>
                                           if expired tm2 then Inl TimeoutError else Inr (),
                                       taken @ [NewTimer timeout] @ slept @ polls)))))))"



text \<open>Two cameras that are observing until the given time and idle from then on.\<close>

definition idle_from :: "rat \<Rightarrow> rat \<Rightarrow> bool list" where
  "idle_from s t = (if t < s then [True, True] else [False, False])"

text \<open>Two cameras of which the second goes on observing until the given time.\<close>

definition second_idle_from :: "rat \<Rightarrow> rat \<Rightarrow> bool list" where
  "second_idle_from s t = (if t < s then [False, True] else [False, False])"

section \<open>Shutter-speed lookup: proofs\<close>

lemma is_num_simps [simp]: "is_num (Num r)" "\<not> is_num (Str s)"
  by (simp_all add: is_num_def)

lemma py_index_first_index:
  "py_index xs x = (case first_index xs x of None \<Rightarrow> Inl ValueError | Some i \<Rightarrow> Inr (int i))"
  by (induction xs) (auto split: option.splits)

lemma first_index_None: "first_index xs x = None \<longleftrightarrow> x \<notin> set xs"
  by (induction xs) auto

lemma first_index_keys_Num: "first_index (dict_keys d) (Num q) = None"
  by (simp add: first_index_None dict_keys_def image_iff)

lemma min_from_nums:
  "list_all is_num xs \<Longrightarrow>
   \<exists>r. min_from (Num m) xs = Inr (Num r) \<and>
       (q < r \<longleftrightarrow> q < m \<and> list_all (shorter_than (Num q)) xs)"
proof (induction xs arbitrary: m)
  case Nil
  then show ?case by simp
next
  case (Cons x xs)
  from Cons.prems obtain a where x: "x = Num a" and rest: "list_all is_num xs"
    by (cases x) auto
  from Cons.IH [OF rest, of "if a < m then a else m"]
  show ?case using x by (auto simp: shorter_than_def)
qed

lemma py_min_nums:
  assumes "list_all is_num xs" and "xs \<noteq> []"
  shows "\<exists>r. py_min xs = Inr (Num r) \<and> (q < r \<longleftrightarrow> list_all (shorter_than (Num q)) xs)"
proof -
  from assms obtain a ys where xs: "xs = Num a # ys" and ys: "list_all is_num ys"
    by (cases xs; cases "hd xs") auto
  from min_from_nums [OF ys, of a q] show ?thesis
    using xs by (auto simp: shorter_than_def)
qed

lemma minimum_test_Num:
  assumes "bulb_first d"
  shows "minimum_test d (Num q) True =
     (if length d = 1 then Inl ValueError
      else Inr (list_all (shorter_than (Num q)) (drop 1 (dict_values d))))"
proof -
  from assms obtain rest where d: "d = (''bulb'', Str ''bulb'') # rest"
    and nums: "list_all is_num (map snd rest)"
    by (cases d) (auto simp: bulb_first_def list_all_iff)
  show ?thesis
  proof (cases rest)
    case Nil
    with d show ?thesis by (simp add: minimum_test_def dict_values_def)
  next
    case (Cons e es)
    then have ne: "map snd rest \<noteq> []" by simp
    from py_min_nums [OF nums ne, of q] show ?thesis
      using d Cons by (auto simp: minimum_test_def dict_values_def)
  qed
qed

lemma shorter_not_member:
  "list_all (shorter_than (Num q)) vs \<Longrightarrow> Num q \<notin> set vs"
  by (auto simp: list_all_iff shorter_than_def)

lemma get_shutterspeed_index_in_Num:
  assumes "bulb_first d"
  shows "get_shutterspeed_index_in d (Num q) rm = Inr (resolveShutterIndex d (Num q) rm)"
proof -
  from assms obtain rest where d: "d = (''bulb'', Str ''bulb'') # rest"
    by (cases d) (auto simp: bulb_first_def)
  have keys: "py_index (dict_keys d) (Num q) = Inl ValueError"
    by (simp add: py_index_first_index first_index_keys_Num)
  show ?thesis
  proof (cases rm)
    case False
    then show ?thesis
      using keys
      by (simp add: get_shutterspeed_index_in_def except_ValueError_def resolveShutterIndex_def minimum_test_def
          py_index_first_index first_index_keys_Num split: option.splits)
  next
    case True
    show ?thesis
    proof (cases "list_all (shorter_than (Num q)) (drop 1 (dict_values d))")
      case short: True
      then have "Num q \<notin> set (dict_values d)"
        using d shorter_not_member [of q "drop 1 (dict_values d)"] by (simp add: dict_values_def)
      then have nov: "first_index (dict_values d) (Num q) = None"
        by (simp add: first_index_None)
      show ?thesis
        using True short nov keys minimum_test_Num [OF assms, of q] d
        by (simp add: get_shutterspeed_index_in_def except_ValueError_def resolveShutterIndex_def
            first_index_keys_Num)
    next
      case long: False
      then have "length d \<noteq> 1" using d by (cases rest) (auto simp: dict_values_def)
      then show ?thesis
        using True long keys minimum_test_Num [OF assms, of q]
        by (simp add: get_shutterspeed_index_in_def except_ValueError_def resolveShutterIndex_def
            py_index_first_index first_index_keys_Num split: option.splits)
    qed
  qed
qed

lemma get_shutterspeed_index_in_Str:
  assumes "bulb_first d" and "Str s \<in> set (dict_keys d) \<or> \<not> rm"
  shows "get_shutterspeed_index_in d (Str s) rm = Inr (resolveShutterIndex d (Str s) rm)"
proof (cases "Str s \<in> set (dict_keys d)")
  case True
  then obtain i where "first_index (dict_keys d) (Str s) = Some i"
    using first_index_None [of "dict_keys d" "Str s"]
    by (cases "first_index (dict_keys d) (Str s)") auto
  then show ?thesis
    by (simp add: get_shutterspeed_index_in_def except_ValueError_def resolveShutterIndex_def
        py_index_first_index)
next
  case False
  with assms(2) have rm: "\<not> rm" by simp
  from assms(1) obtain rest where d: "d = (''bulb'', Str ''bulb'') # rest"
    and nums: "list_all (\<lambda>e. is_num (snd e)) rest"
    by (cases d) (auto simp: bulb_first_def)
  from False d have "s \<noteq> ''bulb''" by (auto simp: dict_keys_def)
  moreover have "Str s \<notin> snd ` set rest"
    using nums by (force simp: list_all_iff)
  ultimately have "Str s \<notin> set (dict_values d)"
    using d by (auto simp: dict_values_def)
  then have nov: "first_index (dict_values d) (Str s) = None"
    by (simp add: first_index_None)
  from False have nok: "first_index (dict_keys d) (Str s) = None"
    by (simp add: first_index_None)
  show ?thesis
    using rm nov nok
    by (simp add: get_shutterspeed_index_in_def except_ValueError_def resolveShutterIndex_def
        minimum_test_def py_index_first_index)
qed

lemma get_shutterspeed_index_in_refines:
  assumes "bulb_first d"
    and "is_num seconds \<or> seconds \<in> set (dict_keys d) \<or> \<not> rm"
  shows "get_shutterspeed_index_in d seconds rm = Inr (resolveShutterIndex d seconds rm)"
proof (cases seconds)
  case (Num q)
  then show ?thesis using get_shutterspeed_index_in_Num [OF assms(1)] by simp
next
  case (Str s)
  then show ?thesis
    using get_shutterspeed_index_in_Str [OF assms(1), of s rm] assms(2) by simp
qed

lemma first_index_pos:
  "y \<noteq> x \<Longrightarrow> x \<in> set ys \<Longrightarrow> \<exists>i. first_index (y # ys) x = Some (Suc i)"
  using first_index_None [of ys x] by (cases "first_index ys x") auto

lemma resolveShutterIndex_value_match:
  assumes "bulb_first d" and "Num q \<in> set (dict_values d)"
  shows "0 < resolveShutterIndex d (Num q) rm"
proof -
  from assms(1) obtain rest where d: "d = (''bulb'', Str ''bulb'') # rest"
    by (cases d) (auto simp: bulb_first_def)
  with assms(2) have "Num q \<in> set (map snd rest)" by (auto simp: dict_values_def)
  from first_index_pos [OF _ this, of "Str ''bulb''"]
  obtain i where "first_index (dict_values d) (Num q) = Some (Suc i)"
    using d by (auto simp: dict_values_def)
  then show ?thesis
    by (simp add: resolveShutterIndex_def first_index_keys_Num)
qed

lemma resolveShutterIndex_longer:
  assumes "bulb_first d"
    and "list_all (\<lambda>v. shorter_than v (Num q)) (drop 1 (dict_values d))"
  shows "resolveShutterIndex d (Num q) rm = 0"
proof -
  from assms(1) obtain rest where d: "d = (''bulb'', Str ''bulb'') # rest"
    by (cases d) (auto simp: bulb_first_def)
  from assms(2) d have below: "\<forall>v \<in> set (map snd rest). shorter_than v (Num q)"
    by (simp add: dict_values_def list_all_iff)
  then have "Num q \<notin> set (map snd rest)"
    by (auto simp: shorter_than_def)
  then have nov: "first_index (dict_values d) (Num q) = None"
    using d by (simp add: first_index_None dict_values_def)
  have "rest = [] \<or> \<not> list_all (shorter_than (Num q)) (map snd rest)"
  proof (cases rest)
    case Nil
    then show ?thesis by simp
  next
    case (Cons e es)
    with below have "shorter_than (snd e) (Num q)" by simp
    then have "\<not> shorter_than (Num q) (snd e)"
      by (auto simp: shorter_than_def split: pyval.splits)
    with Cons show ?thesis by simp
  qed
  then show ?thesis
    using nov d
    by (auto simp: resolveShutterIndex_def first_index_keys_Num dict_values_def)
qed

lemma bulb_first_shutter_speeds: "bulb_first shutter_speeds"
  by (simp add: bulb_first_def shutter_speeds_def)

lemma bulb_first_example_table: "bulb_first example_table"
  by (simp add: bulb_first_def example_table_def)

lemmas lookup_defs =
  get_shutterspeed_index_def get_shutterspeed_index_in_def except_ValueError_def
  minimum_test_def dict_keys_def dict_values_def

text \<open>
  C1. The claim as stated fails: a request of 45 seconds is longer than every entry after
  bulb, matches no key and no value, and is not below the minimum, so the lookup returns 0
  (bulb), not the index of the 30 s entry. This is so on the table of the source and on the
  table of the specification's example.
\<close>

theorem request_45_is_not_index_1:
  "get_shutterspeed_index (Num 45) True = Inr 0 \<and>
   get_shutterspeed_index (Num 45) True \<noteq> Inr 1 \<and>
   get_shutterspeed_index_in example_table (Num 45) True = Inr 0 \<and>
   get_shutterspeed_index_in example_table (Num 45) True \<noteq> Inr 1"
  by (simp add: lookup_defs shutter_speeds_def example_table_def)

text \<open>
  C1, amended. For every table with bulb first and numbers after it, a numeric request
  longer than every entry after bulb resolves to index 0 (bulb), with or without
  \<^verbatim>\<open>return_minimum\<close>.
\<close>

theorem longer_than_every_entry_is_bulb:
  assumes "bulb_first d"
    and "list_all (\<lambda>v. shorter_than v (Num q)) (drop 1 (dict_values d))"
  shows "get_shutterspeed_index_in d (Num q) return_minimum = Inr 0"
  using get_shutterspeed_index_in_Num [OF assms(1), of q return_minimum]
    resolveShutterIndex_longer [OF assms, of return_minimum]
  by simp

theorem longer_than_every_entry_is_bulb_witness:
  "get_shutterspeed_index (Num 45) True = Inr 0 \<and>
   get_shutterspeed_index_in example_table (Num 45) True = Inr 0"
proof -
  have "list_all (\<lambda>v. shorter_than v (Num 45)) (drop 1 (dict_values shutter_speeds))"
    by (simp add: dict_values_def shutter_speeds_def shorter_than_def)
  from longer_than_every_entry_is_bulb [OF bulb_first_shutter_speeds this, of True]
  have a: "get_shutterspeed_index (Num 45) True = Inr 0"
    by (simp add: get_shutterspeed_index_def)
  have "list_all (\<lambda>v. shorter_than v (Num 45)) (drop 1 (dict_values example_table))"
    by (simp add: dict_values_def example_table_def shorter_than_def)
  from longer_than_every_entry_is_bulb [OF bulb_first_example_table this, of True]
  have b: "get_shutterspeed_index_in example_table (Num 45) True = Inr 0" .
  from a b show ?thesis by simp
qed

text \<open>
  C2. A string that is no key of the table, with \<^verbatim>\<open>return_minimum\<close> true: the precedence
  gives 0 (bulb) by rule (iv), the docstring says that a request matching no shutter speed
  gets the bulb setting, and the same request with \<^verbatim>\<open>return_minimum\<close> false does return 0.
  The lookup raises instead: the string is compared with the numeric minimum, and the
  \<^verbatim>\<open>TypeError\<close> of that comparison passes the handler, which catches \<^verbatim>\<open>ValueError\<close> only.
\<close>

theorem unknown_string_with_minimum_raises:
  "get_shutterspeed_index (Str ''60'') True = Inl TypeError \<and>
   get_shutterspeed_index (Str ''60'') True \<noteq> Inr 0 \<and>
   get_shutterspeed_index (Str ''60'') False = Inr 0 \<and>
   resolveShutterIndex shutter_speeds (Str ''60'') True = 0"
  by (simp add: lookup_defs resolveShutterIndex_def shorter_than_def shutter_speeds_def)

text \<open>
  Apart from such strings the lookup and the precedence agree. For every numeric request, for
  every string that is a key of the table, and for every string at all when
  \<^verbatim>\<open>return_minimum\<close> is false, the lookup returns the index that the four-way precedence
  gives: the key's index, else the value's index, else the last index when
  \<^verbatim>\<open>return_minimum\<close> is true and the request is shorter than every entry after bulb, else 0.
  A numeric request equal to a value of the table never resolves to bulb.
\<close>

theorem get_shutterspeed_index_precedence:
  assumes "is_num seconds \<or> seconds \<in> set (dict_keys shutter_speeds) \<or> \<not> return_minimum"
  shows "get_shutterspeed_index seconds return_minimum =
           Inr (resolveShutterIndex shutter_speeds seconds return_minimum) \<and>
         (is_num seconds \<and> seconds \<in> set (dict_values shutter_speeds) \<longrightarrow>
            get_shutterspeed_index seconds return_minimum \<noteq> Inr 0)"
proof -
  have eq: "get_shutterspeed_index seconds return_minimum =
      Inr (resolveShutterIndex shutter_speeds seconds return_minimum)"
    unfolding get_shutterspeed_index_def
    by (rule get_shutterspeed_index_in_refines [OF bulb_first_shutter_speeds assms])
  have "get_shutterspeed_index seconds return_minimum \<noteq> Inr 0"
    if "is_num seconds" and "seconds \<in> set (dict_values shutter_speeds)"
  proof -
    from that(1) obtain q where q: "seconds = Num q" by (cases seconds) auto
    from resolveShutterIndex_value_match [OF bulb_first_shutter_speeds, of q return_minimum]
      that(2) q eq
    show ?thesis by simp
  qed
  with eq show ?thesis by blast
qed

theorem get_shutterspeed_index_precedence_witness:
  "get_shutterspeed_index (Str ''1/4000'') False = Inr 52 \<and>
   get_shutterspeed_index (Num 8) True = Inr 7 \<and>
   get_shutterspeed_index (Num 8) False = Inr 7 \<and>
   get_shutterspeed_index (Num (1 / 5000)) True = Inr 52 \<and>
   get_shutterspeed_index (Num (1 / 5000)) False = Inr 0 \<and>
   get_shutterspeed_index (Num 45) True = Inr 0"
proof -
  have r: "resolveShutterIndex shutter_speeds (Str ''1/4000'') False = 52"
      "resolveShutterIndex shutter_speeds (Num 8) True = 7"
      "resolveShutterIndex shutter_speeds (Num 8) False = 7"
      "resolveShutterIndex shutter_speeds (Num (1 / 5000)) True = 52"
      "resolveShutterIndex shutter_speeds (Num (1 / 5000)) False = 0"
      "resolveShutterIndex shutter_speeds (Num 45) True = 0"
    by (simp_all add: resolveShutterIndex_def dict_keys_def dict_values_def shorter_than_def
        shutter_speeds_def)
  show ?thesis
    using get_shutterspeed_index_precedence [of "Str ''1/4000''" False]
      get_shutterspeed_index_precedence [of "Num 8" True]
      get_shutterspeed_index_precedence [of "Num 8" False]
      get_shutterspeed_index_precedence [of "Num (1 / 5000)" True]
      get_shutterspeed_index_precedence [of "Num (1 / 5000)" False]
      get_shutterspeed_index_precedence [of "Num 45" True]
    by (simp add: r)
qed

section \<open>The gphoto2 command channel: proofs\<close>

lemma communicate_None_not_timeout: "fst (communicate None p) \<noteq> TimeoutExpired"
  by (simp add: communicate_def split: option.splits)

lemma communicate_killed:
  "killed p \<Longrightarrow> communicate tmo p = (Output (out_by p (elapsed p)) (err_by p (elapsed p)), p)"
  by (simp add: communicate_def)

lemma communicate_timeout:
  assumes "\<not> exits_within p t"
  shows "communicate (Some t) p = (TimeoutExpired, p\<lparr>elapsed := elapsed p + max 0 t\<rparr>)"
  using assms by (auto simp: communicate_def exits_within_def split: option.splits)

lemma kill_after_timeout:
  assumes "\<not> exits_within p t"
  shows "kill (p\<lparr>elapsed := elapsed p + max 0 t\<rparr>) =
           p\<lparr>elapsed := elapsed p + max 0 t, killed := True\<rparr>"
  using assms by (auto simp: kill_def poll_def exits_within_def split: option.splits)

text \<open>What \<^verbatim>\<open>split\<close> returns, without reference to how it is computed: no piece holds the
  separator, and the pieces with a separator after each give back the string with one
  separator after it. These two facts determine the pieces.\<close>

lemma py_split_no_sep: "list_all (\<lambda>l. sep \<notin> set l) (py_split sep s)"
  by (induction s) (auto split: list.splits)

lemma py_split_concat: "concat (map (\<lambda>l. l @ [sep]) (py_split sep s)) = s @ [sep]"
  by (induction s) (auto split: list.splits)

lemma split_pieces_unique:
  assumes "list_all (\<lambda>l. sep \<notin> set l) xs" and "list_all (\<lambda>l. sep \<notin> set l) ys"
    and "concat (map (\<lambda>l. l @ [sep]) xs) = concat (map (\<lambda>l. l @ [sep]) ys)"
  shows "xs = ys"
  using assms
proof (induction xs arbitrary: ys)
  case Nil
  then show ?case by (cases ys) auto
next
  case (Cons x xs)
  then obtain y ys' where ys: "ys = y # ys'" by (cases ys) auto
  with Cons.prems have eq: "x @ sep # concat (map (\<lambda>l. l @ [sep]) xs) =
      y @ sep # concat (map (\<lambda>l. l @ [sep]) ys')"
    and x: "sep \<notin> set x" and y: "sep \<notin> set y" by auto
  from eq x y have "x = y \<and> concat (map (\<lambda>l. l @ [sep]) xs) = concat (map (\<lambda>l. l @ [sep]) ys')"
  proof (induction x arbitrary: y)
    case Nil
    then show ?case by (cases y) auto
  next
    case (Cons a x)
    then show ?case by (cases y) auto
  qed
  with Cons.IH [of ys'] Cons.prems ys show ?case by auto
qed

lemma py_split_nonempty: "py_split sep s \<noteq> []"
  by (induction s) (auto split: list.splits)

lemma is_exposing_False_event:
  "is_exposing c = (False, c') \<Longrightarrow> \<not> is_exposing_event c'"
  by (auto simp: is_exposing_def Let_def)

lemma is_exposing_of_clear:
  "\<not> is_exposing_event c \<Longrightarrow> fst (is_exposing c) = False"
  by (auto simp: is_exposing_def Let_def split: option.splits)

lemma command_ok_event_clear:
  assumes "command h a c = (Inr (), c1, evs)"
  shows "\<not> is_exposing_event c1"
proof -
  obtain b c' where ie: "is_exposing c = (b, c')" by (cases "is_exposing c")
  with assms have "\<not> b" by (cases b) (auto simp: command_def)
  with ie have clear: "\<not> is_exposing_event c'" using is_exposing_False_event by simp
  from assms ie \<open>\<not> b\<close> have "is_exposing_event c1 = is_exposing_event c'"
    by (auto simp: command_def Let_def split: popen_result.splits)
  with clear show ?thesis by simp
qed

lemma command_of_clear:
  assumes "\<not> is_exposing_event c"
  shows "fst (command h b c) \<noteq> Inl already_running \<and>
         (\<exists>run_cmd. snd (snd (command h b c)) = [Popen run_cmd])"
proof -
  obtain c' where ie: "is_exposing c = (False, c')"
    using is_exposing_of_clear [OF assms] by (cases "is_exposing c") auto
  then show ?thesis
    by (auto simp: command_def Let_def already_running_def split: popen_result.splits)
qed

text \<open>
  C5. The code does not do what the claim says. \<^verbatim>\<open>command\<close> tests \<^verbatim>\<open>is_exposing\<close>, which
  reads an event that \<^verbatim>\<open>command\<close> never sets, and not whether the process of the holder
  still runs. After any call of \<^verbatim>\<open>command\<close> that started a process, a second call does
  not fail with "Command already running" (whether or not the first process has
  ended): it calls \<^verbatim>\<open>Popen\<close> again.
\<close>

theorem second_command_is_accepted:
  assumes "command h a c = (Inr (), c1, evs)"
  shows "fst (command h b c1) \<noteq> Inl already_running \<and>
         (\<exists>run_cmd. snd (snd (command h b c1)) = [Popen run_cmd])"
  using command_of_clear [OF command_ok_event_clear [OF assms]] .

text \<open>The failing run: two commands in a row on an idle camera, the first process (five
  seconds long) still running when the second command comes. Both start a process, and
  the holder ends up with the second one.\<close>

theorem second_command_is_accepted_witness:
  "command lab_host (Single ''--auto-detect'') idle_camera =
     (Inr (), idle_camera\<lparr>command_proc := Some (slow_process 4)\<rparr>,
      [Popen [Some ''/usr/bin/gphoto2'', Some ''--port'', Some ''usb:001,004'',
              Some ''--auto-detect'']]) \<and>
   poll (slow_process 4) = None \<and>
   fst (command lab_host (Several [''--get-config'', ''serialnumber''])
          (idle_camera\<lparr>command_proc := Some (slow_process 4)\<rparr>)) \<noteq> Inl already_running \<and>
   command lab_host (Several [''--get-config'', ''serialnumber''])
          (idle_camera\<lparr>command_proc := Some (slow_process 4)\<rparr>) =
     (Inr (), idle_camera\<lparr>command_proc := Some (slow_process 5)\<rparr>,
      [Popen [Some ''/usr/bin/gphoto2'', Some ''--port'', Some ''usb:001,004'',
              Some ''--get-config'', Some ''serialnumber'']])"
proof -
  have first: "command lab_host (Single ''--auto-detect'') idle_camera =
     (Inr (), idle_camera\<lparr>command_proc := Some (slow_process 4)\<rparr>,
      [Popen [Some ''/usr/bin/gphoto2'', Some ''--port'', Some ''usb:001,004'',
              Some ''--auto-detect'']])"
    by (simp add: command_def is_exposing_def lab_host_def idle_camera_def eval_nat_numeral)
  have running: "poll (slow_process 4) = None"
    by (simp add: poll_def slow_process_def)
  have second: "command lab_host (Several [''--get-config'', ''serialnumber''])
          (idle_camera\<lparr>command_proc := Some (slow_process 4)\<rparr>) =
     (Inr (), idle_camera\<lparr>command_proc := Some (slow_process 5)\<rparr>,
      [Popen [Some ''/usr/bin/gphoto2'', Some ''--port'', Some ''usb:001,004'',
              Some ''--get-config'', Some ''serialnumber'']])"
    by (simp add: command_def is_exposing_def running lab_host_def idle_camera_def
        eval_nat_numeral)
  from second_command_is_accepted [OF first, of "Several [''--get-config'', ''serialnumber'']"]
  have "fst (command lab_host (Several [''--get-config'', ''serialnumber''])
          (idle_camera\<lparr>command_proc := Some (slow_process 4)\<rparr>)) \<noteq> Inl already_running"
    by simp
  with first running second show ?thesis by simp
qed

text \<open>
  C6. When the process of the holder does not end within the timeout,
  \<^verbatim>\<open>get_command_result\<close> returns (it neither blocks nor raises): it has called
  \<^verbatim>\<open>communicate\<close> with the timeout, killed the process, and called \<^verbatim>\<open>communicate\<close> again
  without a timeout, and the holder is empty. The result is the lines of what the process
  had written when it was killed: at least one piece, no piece holding a line break, and the
  pieces, each followed by a line break, make up that output followed by a line break.
\<close>

theorem get_command_result_kills_on_timeout:
  assumes "command_proc c = Some p" and "\<not> exits_within p timeout"
  shows "\<exists>lines.
     get_command_result timeout c =
       Some (Inr (Some lines),
             c\<lparr>command_proc := None\<rparr>,
             [Communicate (pid p) (Some timeout), Kill (pid p), Communicate (pid p) None]
             @ (if err_by p (elapsed p + max 0 timeout) \<noteq> []
                then [LogError (err_by p (elapsed p + max 0 timeout))] else [])) \<and>
     lines = py_split newline (out_by p (elapsed p + max 0 timeout)) \<and>
     lines \<noteq> [] \<and>
     list_all (\<lambda>l. newline \<notin> set l) lines \<and>
     concat (map (\<lambda>l. l @ [newline]) lines) = out_by p (elapsed p + max 0 timeout) @ [newline]"
  using assms(1) communicate_timeout [OF assms(2)] kill_after_timeout [OF assms(2)]
  by (simp add: get_command_result_def communicate_killed collected_def
      py_split_nonempty py_split_no_sep py_split_concat)

theorem get_command_result_kills_on_timeout_witness:
  "\<not> exits_within (hung_process 4) 3 \<and>
   get_command_result 3 (idle_camera\<lparr>command_proc := Some (hung_process 4)\<rparr>) =
     Some (Inr (Some [''Label: x'', ''Current: 7'', ''Cho'']), idle_camera,
           [Communicate 4 (Some 3), Kill 4, Communicate 4 None, LogError ''device busy''])"
proof -
  have hung: "\<not> exits_within (hung_process 4) 3"
    by (simp add: exits_within_def hung_process_def)
  have "command_proc (idle_camera\<lparr>command_proc := Some (hung_process 4)\<rparr>) = Some (hung_process 4)"
    by simp
  from get_command_result_kills_on_timeout [OF this hung] hung
  show ?thesis
    by (simp add: hung_process_def idle_camera_def newline_def)
qed

text \<open>
  C7. With an empty holder \<^verbatim>\<open>get_command_result\<close> returns \<^verbatim>\<open>None\<close> at once, as a value and
  without touching any process; and whenever it returns a result, the holder is empty
  afterwards, so that the next call returns \<^verbatim>\<open>None\<close>.
\<close>

theorem get_command_result_empties_holder:
  "(command_proc c = None \<longrightarrow> get_command_result t c = Some (Inr None, c, [])) \<and>
   (get_command_result t c = Some (Inr r, c', evs) \<longrightarrow>
      command_proc c' = None \<and> get_command_result t' c' = Some (Inr None, c', []))"
proof -
  have a: "get_command_result t c = Some (Inr None, c, [])" if "command_proc c = None"
    using that by (simp add: get_command_result_def)
  have b: "command_proc c' = None"
    if "get_command_result t c = Some (Inr r, c', evs)"
    using that
    by (auto simp: get_command_result_def collected_def
        split: option.splits prod.splits communicated.splits)
  have "get_command_result t' c' = Some (Inr None, c', [])"
    if "get_command_result t c = Some (Inr r, c', evs)"
    using b [OF that] by (simp add: get_command_result_def)
  with a b show ?thesis by blast
qed

theorem get_command_result_empties_holder_witness:
  "get_command_result 10 idle_camera = Some (Inr None, idle_camera, []) \<and>
   get_command_result 10 (idle_camera\<lparr>command_proc := Some (slow_process 4)\<rparr>) =
     Some (Inr (Some [''Label: x'', ''Current: 7'']), idle_camera, [Communicate 4 (Some 10)]) \<and>
   command_proc idle_camera = None"
proof -
  have none: "command_proc idle_camera = None"
    by (simp add: idle_camera_def)
  have run: "get_command_result 10 (idle_camera\<lparr>command_proc := Some (slow_process 4)\<rparr>) =
     Some (Inr (Some [''Label: x'', ''Current: 7'']), idle_camera, [Communicate 4 (Some 10)])"
    by (simp add: get_command_result_def communicate_def collected_def slow_process_def
        idle_camera_def newline_def)
  from get_command_result_empties_holder
    [of "idle_camera\<lparr>command_proc := Some (slow_process 4)\<rparr>" 10
        "Some [''Label: x'', ''Current: 7'']" idle_camera "[Communicate 4 (Some 10)]" 10]
    run
  have "get_command_result 10 idle_camera = Some (Inr None, idle_camera, [])"
    by simp
  with run none show ?thesis by simp
qed

section \<open>The observatory: proofs\<close>

subsection \<open>Ordered dictionaries\<close>

lemma od_get_od_set_same: "od_get (od_set k v d) k = Some v"
  by (induction d) auto

lemma od_get_od_set_other: "k' \<noteq> k \<Longrightarrow> od_get (od_set k v d) k' = od_get d k'"
  by (induction d) auto

lemma od_keys_od_set_present:
  "k \<in> set (od_keys d) \<Longrightarrow> od_keys (od_set k v d) = od_keys d"
  by (induction d) (force simp: od_keys_def)+

lemma od_keys_od_set_absent:
  "k \<notin> set (od_keys d) \<Longrightarrow> od_keys (od_set k v d) = od_keys d @ [k]"
  by (induction d) (auto simp: od_keys_def)

lemma od_set_idem: "od_get d k = Some v \<Longrightarrow> od_set k v d = d"
  by (induction d) (auto split: if_splits)

text \<open>
  C8. Registering a camera under a name that is already in the registry succeeds, leaves
  the names of the registry in the order they had, puts the new camera under that name and
  leaves every other name's camera as it was.
\<close>

theorem add_camera_replaces_in_place:
  assumes "cam_name \<in> set (od_keys (cameras obs))"
  shows "\<exists>obs'. add_camera cam_name (CameraObj camera) obs = Inr obs' \<and>
           od_keys (cameras obs') = od_keys (cameras obs) \<and>
           od_get (cameras obs') cam_name = Some camera \<and>
           (\<forall>other. other \<noteq> cam_name \<longrightarrow>
              od_get (cameras obs') other = od_get (cameras obs) other)"
  using assms
  by (simp add: add_camera_def set_primary_camera_def Let_def od_keys_od_set_present
      od_get_od_set_same od_get_od_set_other)

theorem add_camera_replaces_in_place_witness:
  "''Cam00'' \<in> set (od_keys (cameras two_cameras)) \<and>
   od_keys (cameras two_cameras) = [''Cam00'', ''Cam01''] \<and>
   (\<exists>obs'. add_camera ''Cam00'' (CameraObj cam02) two_cameras = Inr obs' \<and>
      od_keys (cameras obs') = [''Cam00'', ''Cam01''] \<and>
      od_get (cameras obs') ''Cam00'' = Some cam02 \<and>
      od_get (cameras obs') ''Cam01'' = Some cam01)"
proof -
  have keys: "od_keys (cameras two_cameras) = [''Cam00'', ''Cam01'']"
    by (simp add: two_cameras_def od_keys_def)
  then have present: "''Cam00'' \<in> set (od_keys (cameras two_cameras))"
    by simp
  have old: "od_get (cameras two_cameras) ''Cam01'' = Some cam01"
    by (simp add: two_cameras_def)
  from add_camera_replaces_in_place [OF present, of cam02] keys old
  have "\<exists>obs'. add_camera ''Cam00'' (CameraObj cam02) two_cameras = Inr obs' \<and>
      od_keys (cameras obs') = [''Cam00'', ''Cam01''] \<and>
      od_get (cameras obs') ''Cam00'' = Some cam02 \<and>
      od_get (cameras obs') ''Cam01'' = Some cam01"
    by auto
  with present keys show ?thesis by simp
qed

subsection \<open>The loop over the cameras\<close>

lemma store_latest_other:
  "m \<noteq> n \<Longrightarrow> od_get (store_latest n ex el) m = od_get el m"
  by (simp add: store_latest_def od_get_od_set_other split: option.splits)

lemma store_latest_same:
  assumes "latest_exposure el n = Inr ex"
  shows "store_latest n ex el = el"
proof -
  from assms obtain exs where exs: "od_get el n = Some exs" "exs \<noteq> []" "ex = last exs"
    by (auto simp: latest_exposure_def split: option.splits list.splits)
  then have "butlast exs @ [ex] = exs" by simp
  with exs(1) show ?thesis by (simp add: store_latest_def od_set_idem)
qed

lemma process_exposure_complete:
  "is_complete ex \<Longrightarrow> process_exposure opts cfg sv n ex = (Return, ex, [])"
  by (simp add: process_exposure_def is_complete_def)

lemma process_cameras_complete_head:
  assumes "latest_exposure el n = Inr ex" and "is_complete ex"
  shows "process_cameras opts cfg sv (n # post) el = (Return, el, [])"
  using assms by (simp add: process_exposure_complete store_latest_same)

lemma process_cameras_append:
  "process_cameras opts cfg sv (pre @ rest) el =
     (case process_cameras opts cfg sv pre el of
        (Next, el1, tr1) \<Rightarrow>
          (case process_cameras opts cfg sv rest el1 of (fl, el2, tr2) \<Rightarrow> (fl, el2, tr1 @ tr2))
      | (Return, el1, tr1) \<Rightarrow> (Return, el1, tr1)
      | (Raise e, el1, tr1) \<Rightarrow> (Raise e, el1, tr1))"
proof (induction pre arbitrary: el)
  case Nil
  then show ?case by (simp split: prod.splits)
next
  case (Cons n ns)
  show ?case
    by (simp add: Cons.IH split: sum.splits prod.splits flow.splits)
qed

lemma process_cameras_reaches_complete:
  assumes "process_cameras opts cfg sv pre el = (Next, el1, tr1)"
    and "latest_exposure el1 n = Inr ex" and "is_complete ex"
  shows "process_cameras opts cfg sv (pre @ n # post) el = (Return, el1, tr1)"
  using assms(1) process_cameras_complete_head [OF assms(2,3), of opts cfg sv post]
  by (simp add: process_cameras_append)

lemma solve_step_tagged:
  "solve_step sv n st = (fl, st') \<Longrightarrow> tagged n st \<Longrightarrow> tagged n st'"
  by (auto simp: solve_step_def emit_def tagged_def Let_def split: sum.splits option.splits)

lemma compress_step_tagged:
  "compress_step sv n st = (fl, st') \<Longrightarrow> tagged n st \<Longrightarrow> tagged n st'"
  by (auto simp: compress_step_def emit_def set_md_def tagged_def Let_def split: sum.splits)

lemma record_step_tagged:
  "record_step sv n st = (fl, st') \<Longrightarrow> tagged n st \<Longrightarrow> tagged n st'"
  by (auto simp: record_step_def emit_def set_md_def tagged_def Let_def split: sum.splits)

lemma pretty_step_tagged:
  "pretty_step sv n st = (fl, st') \<Longrightarrow> tagged n st \<Longrightarrow> tagged n st'"
  by (auto simp: pretty_step_def emit_def tagged_def split: sum.splits option.splits)

lemma upload_step_tagged:
  "upload_step sv n st = (fl, st') \<Longrightarrow> tagged n st \<Longrightarrow> tagged n st'"
  by (auto simp: upload_step_def emit_def tagged_def split: sum.splits)

lemma guarded_tagged:
  assumes "\<And>st fl st'. f st = (fl, st') \<Longrightarrow> tagged n st \<Longrightarrow> tagged n st'"
  shows "guarded b f st = (fl, st') \<Longrightarrow> tagged n st \<Longrightarrow> tagged n st'"
  using assms by (cases b) (auto simp: guarded_def)

lemma and_then_tagged:
  assumes f: "\<And>st fl st'. f st = (fl, st') \<Longrightarrow> tagged n st \<Longrightarrow> tagged n st'"
    and g: "\<And>st fl st'. g st = (fl, st') \<Longrightarrow> tagged n st \<Longrightarrow> tagged n st'"
    and run: "and_then f g st = (fl, st')" and start: "tagged n st"
  shows "tagged n st'"
proof -
  obtain fl1 st1 where fst: "f st = (fl1, st1)" by (cases "f st")
  from f [OF fst start] have mid: "tagged n st1" .
  show ?thesis
  proof (cases fl1)
    case Next
    with run fst have "g st1 = (fl, st')" by (simp add: and_then_def)
    from g [OF this mid] show ?thesis .
  next
    case Return
    with run fst have "st' = st1" by (simp add: and_then_def)
    with mid show ?thesis by simp
  next
    case (Raise e)
    with run fst have "st' = st1" by (simp add: and_then_def)
    with mid show ?thesis by simp
  qed
qed

lemma pipeline_tagged:
  "pipeline opts cfg sv n st = (fl, st') \<Longrightarrow> tagged n st \<Longrightarrow> tagged n st'"
  unfolding pipeline_def
  by (erule and_then_tagged [rotated 2]
      | erule guarded_tagged [rotated]
      | erule solve_step_tagged compress_step_tagged record_step_tagged
          pretty_step_tagged upload_step_tagged
      | assumption)+

lemma process_exposure_names:
  assumes "process_exposure opts cfg sv n ex = (fl, ex', tr)"
  shows "list_all (\<lambda>ev. event_name ev = n) tr"
proof (cases "is_pending ex")
  case False
  with assms have "tr = []"
    by (auto simp: process_exposure_def is_pending_def split: if_splits)
  then show ?thesis by simp
next
  case True
  then obtain fp where fp: "od_get (metadata ex) ''filepath'' = Some fp"
    by (auto simp: is_pending_def required_fields_def)
  define st0 where "st0 = \<lparr>the_exposure = ex, md = metadata ex, aliased = True,
      file_path = fp, trace = []\<rparr>"
  obtain fl1 st1 where run: "pipeline opts cfg sv n st0 = (fl1, st1)"
    by (cases "pipeline opts cfg sv n st0")
  have "tagged n st0" by (simp add: tagged_def st0_def)
  from pipeline_tagged [OF run this] have "tagged n st1" .
  moreover from assms True fp run have "tr = trace st1"
    by (simp add: process_exposure_def is_pending_def st0_def)
  ultimately show ?thesis by (simp add: tagged_def)
qed

lemma process_cameras_frame:
  assumes "process_cameras opts cfg sv ns el = (fl, el', tr)"
  shows "list_all (\<lambda>ev. event_name ev \<in> set ns) tr \<and>
         (\<forall>m. m \<notin> set ns \<longrightarrow> od_get el' m = od_get el m)"
  using assms
proof (induction ns arbitrary: el fl el' tr)
  case Nil
  then show ?case by simp
next
  case (Cons n ns)
  show ?case
  proof (cases "latest_exposure el n")
    case (Inl e)
    with Cons.prems show ?thesis by auto
  next
    case (Inr ex)
    obtain fl1 ex1 tr1 where pe: "process_exposure opts cfg sv n ex = (fl1, ex1, tr1)"
      by (cases "process_exposure opts cfg sv n ex") auto
    note names = process_exposure_names [OF pe]
    show ?thesis
    proof (cases fl1)
      case Next
      obtain fl2 el2 tr2 where rest:
        "process_cameras opts cfg sv ns (store_latest n ex1 el) = (fl2, el2, tr2)"
        by (cases "process_cameras opts cfg sv ns (store_latest n ex1 el)") auto
      from Cons.IH [OF rest] have ih: "list_all (\<lambda>ev. event_name ev \<in> set ns) tr2"
        "\<forall>m. m \<notin> set ns \<longrightarrow> od_get el2 m = od_get (store_latest n ex1 el) m" by auto
      from Cons.prems Inr pe Next rest have "el' = el2" "tr = tr1 @ tr2" by auto
      with ih names show ?thesis by (auto simp: store_latest_other list_all_iff)
    next
      case Return
      with Cons.prems Inr pe have "el' = store_latest n ex1 el" "tr = tr1" by auto
      with names show ?thesis by (auto simp: store_latest_other list_all_iff)
    next
      case (Raise e)
      with Cons.prems Inr pe have "el' = store_latest n ex1 el" "tr = tr1" by auto
      with names show ?thesis by (auto simp: store_latest_other list_all_iff)
    qed
  qed
qed

text \<open>
  C9. When the loop reaches an exposure that has the required fields and is marked
  complete, no step is run for it (the turn for it does nothing and changes nothing) and
  \<^verbatim>\<open>process_observation\<close> returns without an error, with what the cameras before it left.
\<close>

theorem complete_exposure_is_skipped:
  assumes "od_keys (cameras obs) = pre @ n # post"
    and "process_cameras opts cfg sv pre el = (Next, el1, tr1)"
    and "latest_exposure el1 n = Inr ex" and "is_complete ex"
  shows "process_exposure opts cfg sv n ex = (Return, ex, []) \<and>
         process_observation opts cfg sv obs el = (Inr (), el1, tr1)"
  using process_cameras_reaches_complete [OF assms(2,3,4), of post] assms(1)
  by (simp add: process_exposure_complete [OF assms(4)] process_observation_def)

lemmas run_defs =
  process_observation_def process_exposure_def pipeline_def and_then_def guarded_def
  enabled_def solve_step_def compress_step_def record_step_def pretty_step_def
  upload_step_def emit_def set_md_def truthy_def latest_exposure_def store_latest_def
  required_fields_def od_keys_def Let_def

lemmas fixture_defs =
  all_steps_def no_config_def good_services_def fpack_fails_def solve_fails_def
  upload_fails_def fresh_exposure_def complete_exposure_def two_cameras_def
  second_done_def first_done_def both_fresh_def

lemma is_complete_complete_exposure: "is_complete complete_exposure"
  by (simp add: is_complete_def required_fields_def complete_exposure_def fresh_exposure_def)

lemma is_pending_fresh_exposure: "is_pending fresh_exposure"
  by (simp add: is_pending_def required_fields_def fresh_exposure_def)

theorem complete_exposure_is_skipped_witness:
  "od_keys (cameras two_cameras) = [''Cam00''] @ ''Cam01'' # [] \<and>
   latest_exposure second_done ''Cam01'' = Inr complete_exposure \<and>
   is_complete complete_exposure \<and>
   process_exposure all_steps no_config good_services ''Cam01'' complete_exposure =
     (Return, complete_exposure, []) \<and>
   process_observation all_steps no_config good_services two_cameras second_done =
     (Inr (),
      [(''Cam00'', [fresh_exposure\<lparr>path := Str ''image.fits.fz''\<rparr>]),
       (''Cam01'', [fresh_exposure, complete_exposure])],
      [Ran ''Cam00'' Solve, Ran ''Cam00'' Compress, Ran ''Cam00'' Record,
       Ran ''Cam00'' Pretty, Ran ''Cam00'' Upload])"
proof -
  have keys: "od_keys (cameras two_cameras) = [''Cam00''] @ ''Cam01'' # []"
    by (simp add: two_cameras_def od_keys_def)
  have before: "process_cameras all_steps no_config good_services [''Cam00''] second_done =
     (Next,
      [(''Cam00'', [fresh_exposure\<lparr>path := Str ''image.fits.fz''\<rparr>]),
       (''Cam01'', [fresh_exposure, complete_exposure])],
      [Ran ''Cam00'' Solve, Ran ''Cam00'' Compress, Ran ''Cam00'' Record,
       Ran ''Cam00'' Pretty, Ran ''Cam00'' Upload])"
    by (simp add: run_defs fixture_defs)
  have latest: "latest_exposure
      [(''Cam00'', [fresh_exposure\<lparr>path := Str ''image.fits.fz''\<rparr>]),
       (''Cam01'', [fresh_exposure, complete_exposure])] ''Cam01'' = Inr complete_exposure"
    by (simp add: latest_exposure_def)
  have latest0: "latest_exposure second_done ''Cam01'' = Inr complete_exposure"
    by (simp add: latest_exposure_def second_done_def)
  from complete_exposure_is_skipped [OF keys before latest is_complete_complete_exposure]
    keys latest0 is_complete_complete_exposure
  show ?thesis by simp
qed

text \<open>
  C10. When the loop reaches a camera whose latest exposure is complete, the method
  returns: the run is the run over the cameras up to and including that one, and for a
  camera that comes later in the registry nothing is done: its exposures are what they
  were and no event of the run belongs to it.
\<close>

theorem later_cameras_are_not_processed:
  assumes "od_keys (cameras obs) = pre @ n # post"
    and "process_cameras opts cfg sv pre el = (Next, el1, tr1)"
    and "latest_exposure el1 n = Inr ex" and "is_complete ex"
    and "m \<in> set post" and "m \<notin> set pre" and "m \<noteq> n"
  shows "process_cameras opts cfg sv (pre @ n # post) el =
           process_cameras opts cfg sv (pre @ [n]) el \<and>
         (\<exists>r el' tr. process_observation opts cfg sv obs el = (r, el', tr) \<and>
            od_get el' m = od_get el m \<and> list_all (\<lambda>ev. event_name ev \<noteq> m) tr)"
proof -
  have run: "process_cameras opts cfg sv (pre @ n # post) el = (Return, el1, tr1)"
    by (rule process_cameras_reaches_complete [OF assms(2,3,4)])
  have short: "process_cameras opts cfg sv (pre @ [n]) el = (Return, el1, tr1)"
    by (rule process_cameras_reaches_complete [OF assms(2,3,4)])
  from process_cameras_frame [OF assms(2)] assms(6)
  have "od_get el1 m = od_get el m" and "list_all (\<lambda>ev. event_name ev \<noteq> m) tr1"
    by (auto simp: list_all_iff)
  moreover from run assms(1)
  have "process_observation opts cfg sv obs el = (Inr (), el1, tr1)"
    by (simp add: process_observation_def)
  ultimately show ?thesis using run short by simp
qed

theorem later_cameras_are_not_processed_witness:
  "process_cameras all_steps no_config good_services [''Cam00'', ''Cam01''] first_done =
     (Return, first_done, []) \<and>
   process_observation all_steps no_config good_services two_cameras first_done =
     (Inr (), first_done, []) \<and>
   latest_exposure first_done ''Cam01'' = Inr fresh_exposure \<and>
   is_pending fresh_exposure \<and>
   snd (snd (process_cameras all_steps no_config good_services [''Cam01''] first_done)) =
     [Ran ''Cam01'' Solve, Ran ''Cam01'' Compress, Ran ''Cam01'' Record,
      Ran ''Cam01'' Pretty, Ran ''Cam01'' Upload]"
proof -
  have keys: "od_keys (cameras two_cameras) = [] @ ''Cam00'' # [''Cam01'']"
    by (simp add: two_cameras_def od_keys_def)
  have before: "process_cameras all_steps no_config good_services [] first_done =
      (Next, first_done, [])"
    by simp
  have latest: "latest_exposure first_done ''Cam00'' = Inr complete_exposure"
    by (simp add: latest_exposure_def first_done_def)
  have only: "process_cameras all_steps no_config good_services [''Cam00''] first_done =
      (Return, first_done, [])"
    using process_cameras_complete_head [OF latest is_complete_complete_exposure] .
  have later: "latest_exposure first_done ''Cam01'' = Inr fresh_exposure"
    by (simp add: latest_exposure_def first_done_def)
  have alone:
    "snd (snd (process_cameras all_steps no_config good_services [''Cam01''] first_done)) =
     [Ran ''Cam01'' Solve, Ran ''Cam01'' Compress, Ran ''Cam01'' Record,
      Ran ''Cam01'' Pretty, Ran ''Cam01'' Upload]"
    by (simp add: run_defs fixture_defs)
  from later_cameras_are_not_processed
    [OF keys before latest is_complete_complete_exposure, of "''Cam01''"] only
  have both: "process_cameras all_steps no_config good_services [''Cam00'', ''Cam01''] first_done =
     (Return, first_done, [])"
    by simp
  then have "process_observation all_steps no_config good_services two_cameras first_done =
     (Inr (), first_done, [])"
    using keys by (simp add: process_observation_def)
  with both later alone is_pending_fresh_exposure show ?thesis by simp
qed

subsection \<open>Steps that fail\<close>

text \<open>The solve, pretty-image and upload steps catch what their block raises: each of
  them always hands on to the next statement.\<close>

lemma caught_steps_continue:
  "fst (solve_step sv n st) = Next"
  "fst (pretty_step sv n st) = Next"
  "fst (upload_step sv n st) = Next"
  by (simp_all add: solve_step_def pretty_step_def upload_step_def Let_def
      split: sum.splits option.splits)

text \<open>
  C3. The code does not do what the claim says for the compress step (nor for the record
  step): the call of \<^verbatim>\<open>fpack\<close> stands outside any \<^verbatim>\<open>try\<close>. When compressing is enabled
  and \<^verbatim>\<open>fpack\<close> raises, the exception leaves \<^verbatim>\<open>process_observation\<close>, and the record,
  pretty-image and upload steps are not run, for an exposure that has the required fields
  and is not complete.
\<close>

theorem fpack_failure_leaves_method:
  assumes "is_pending ex"
    and "enabled (compress_fits opts) (cfg_compress_fits cfg)"
    and "\<forall>fp. fpack sv fp = Inl e"
  shows "\<exists>ex' tr. process_exposure opts cfg sv n ex = (Raise e, ex', tr) \<and>
           Ran n Compress \<in> set tr \<and> Ran n Record \<notin> set tr \<and>
           Ran n Pretty \<notin> set tr \<and> Ran n Upload \<notin> set tr"
proof -
  from assms(1) obtain fp where fp: "od_get (metadata ex) ''filepath'' = Some fp"
    by (auto simp: is_pending_def required_fields_def)
  show ?thesis
    using assms fp
    by (auto simp: process_exposure_def is_pending_def pipeline_def and_then_def guarded_def
        solve_step_def compress_step_def emit_def Let_def split: sum.splits option.splits)
qed

text \<open>The failing run: two cameras with fresh exposures, every step switched on, an
  \<^verbatim>\<open>fpack\<close> that raises. The method raises in the first camera's compress step; nothing is
  recorded, rendered or uploaded, and the second camera is not reached.\<close>

theorem fpack_failure_leaves_method_witness:
  "is_pending fresh_exposure \<and>
   enabled (compress_fits all_steps) (cfg_compress_fits no_config) \<and>
   fst (process_exposure all_steps no_config fpack_fails ''Cam00'' fresh_exposure) =
     Raise (OtherException ''fpack'') \<and>
   process_observation all_steps no_config fpack_fails two_cameras both_fresh =
     (Inl (OtherException ''fpack''), both_fresh,
      [Ran ''Cam00'' Solve, Ran ''Cam00'' Compress])"
proof -
  have on: "enabled (compress_fits all_steps) (cfg_compress_fits no_config)"
    by (simp add: enabled_def all_steps_def)
  have fails: "\<forall>fp. fpack fpack_fails fp = Inl (OtherException ''fpack'')"
    by (simp add: fpack_fails_def)
  from fpack_failure_leaves_method [OF is_pending_fresh_exposure on fails, of "''Cam00''"]
  have raised: "fst (process_exposure all_steps no_config fpack_fails ''Cam00'' fresh_exposure) =
     Raise (OtherException ''fpack'')"
    by auto
  have run: "process_observation all_steps no_config fpack_fails two_cameras both_fresh =
     (Inl (OtherException ''fpack''), both_fresh,
      [Ran ''Cam00'' Solve, Ran ''Cam00'' Compress])"
    by (simp add: run_defs fixture_defs)
  from is_pending_fresh_exposure on raised run show ?thesis by simp
qed

section \<open>Waiting for the cameras in \<^verbatim>\<open>observe\<close>\<close>

subsection \<open>The timer and the loop\<close>












subsection \<open>The blocking call\<close>




subsection \<open>The scenario of the specification\<close>

text \<open>Exposure 2 s, readout 1 s, timeout 5 s, two cameras that are idle from 2.5 s on: the
  budget is 8 s, the first sleep 3 s, and the first poll finds both cameras idle.\<close>

lemma observe_idle_at_first_poll:
  "observe True 2 (idle_from (5 / 2)) two_cameras =
     (Inr (), [TakeObservation ''Cam00'', TakeObservation ''Cam01'', NewTimer 8, Slept 3,
               Polled 3 [False, False]])"
  by (simp add: observe_def two_cameras_def primary_camera_def cam00_def od_keys_def
      new_timer_def timer_sleep_def time_left_def expired_def wait_loop.simps all_idle_def
      idle_from_def Let_def)

text \<open>The same call with cameras that stay busy until 7.5 s: the polls at 3, 4, 5, 6 and 7 s
  find them observing, the last sleep ends the budget, and the cameras are not asked
  again.\<close>

lemma observe_idle_too_late:
  "observe True 2 (idle_from (15 / 2)) two_cameras =
     (Inl TimeoutError,
      [TakeObservation ''Cam00'', TakeObservation ''Cam01'', NewTimer 8, Slept 3,
       Polled 3 [True, True], Slept 1, Polled 4 [True, True], Slept 1,
       Polled 5 [True, True], Slept 1, Polled 6 [True, True], Slept 1,
       Polled 7 [True, True], Slept 1])"
  by (simp add: observe_def two_cameras_def primary_camera_def cam00_def od_keys_def
      new_timer_def timer_sleep_def time_left_def expired_def wait_loop.simps all_idle_def
      idle_from_def Let_def)

text \<open>Every camera is asked at every poll: with a second camera that goes on observing until
  4.5 s the call returns at the poll at 5 s.\<close>

lemma observe_waits_for_every_camera:
  "observe True 2 (second_idle_from (9 / 2)) two_cameras =
     (Inr (),
      [TakeObservation ''Cam00'', TakeObservation ''Cam01'', NewTimer 8, Slept 3,
       Polled 3 [False, True], Slept 1, Polled 4 [False, True], Slept 1,
       Polled 5 [False, False]])"
  by (simp add: observe_def two_cameras_def primary_camera_def cam00_def od_keys_def
      new_timer_def timer_sleep_def time_left_def expired_def wait_loop.simps all_idle_def
      second_idle_from_def Let_def)

text \<open>With a primary camera whose readout time is 0 the cameras are asked once, after the
  exposure time; when one of them is still observing, the sleep that follows has no bound
  and uses up the budget.\<close>

lemma observe_without_readout_time:
  "observe True 2 (idle_from 3)
     (two_cameras\<lparr>primary_camera_field := Some (cam00\<lparr>cam_readout_time := 0\<rparr>)\<rparr>) =
     (Inl TimeoutError,
      [TakeObservation ''Cam00'', TakeObservation ''Cam01'', NewTimer 7, Slept 2,
       Polled 2 [True, True], Slept 5])"
  by (simp add: observe_def two_cameras_def primary_camera_def cam00_def od_keys_def
      new_timer_def timer_sleep_def time_left_def expired_def wait_loop.simps all_idle_def
      idle_from_def Let_def)


end
